theory Spec2Isabelle
  imports Main "HOL-Library.Multiset" "HOL-Library.Char_ord" "HOL-Library.List_Lexorder"
    "HOL-Library.Product_Lexorder"
begin

section \<open>The Go standard library, as far as the program uses it\<close>

text \<open>
  A Go string is a sequence of bytes: \<^typ>\<open>string\<close>, a list of 8-bit characters.
  Go compares strings byte by byte, a proper prefix being smaller: the order \<open><\<close> of
  lists over the order of characters by their byte value.  Go's \<open>int\<close> is
  \<^typ>\<open>int\<close>; the program only compares and prints integers, and \<open>Atoi\<close>
  below clamps to the 64-bit range.
\<close>

subsection \<open>Package strings\<close>

text \<open>
  \<open>strings.ToLower\<close> and \<open>strings.TrimSpace\<close> work on Unicode code points
  (case folding of every letter, every Unicode space, replacement of invalid UTF-8).
  They are parameters of the model: every function of the program that calls them takes
  the pair as its argument \<open>U\<close>, and the theorems hold for whatever the two functions
  compute.  \<open>ascii\<close> is the instance that agrees with Go on strings of bytes below
  0x80.
\<close>

record strings_pkg =
  ToLower :: "string \<Rightarrow> string"
  TrimSpace :: "string \<Rightarrow> string"

definition asciiSpace :: "char \<Rightarrow> bool" where
  "asciiSpace c = (c \<in> {CHR 0x09, CHR 0x0A, CHR 0x0B, CHR 0x0C, CHR 0x0D, CHR 0x20})"

definition ascii_lower :: "char \<Rightarrow> char" where
  "ascii_lower c =
     (case map_of (zip ''ABCDEFGHIJKLMNOPQRSTUVWXYZ'' ''abcdefghijklmnopqrstuvwxyz'') c of
        Some l \<Rightarrow> l
      | None \<Rightarrow> c)"

definition ascii :: strings_pkg where
  "ascii = \<lparr>ToLower = map ascii_lower,
            TrimSpace = (\<lambda>s. rev (dropWhile asciiSpace (rev (dropWhile asciiSpace s))))\<rparr>"

text \<open>\<open>strings.HasPrefix(s, prefix)\<close>: \<open>len(s) >= len(prefix) && s[:len(prefix)] == prefix\<close>.\<close>

definition HasPrefix :: "string \<Rightarrow> string \<Rightarrow> bool" where
  "HasPrefix s p = (length s \<ge> length p \<and> take (length p) s = p)"

text \<open>\<open>strings.Contains(s, substr)\<close>: \<open>substr\<close> occurs at some position of \<open>s\<close>.\<close>

fun Contains :: "string \<Rightarrow> string \<Rightarrow> bool" where
  "Contains [] substr = (substr = [])"
| "Contains (c # s) substr = (HasPrefix (c # s) substr \<or> Contains s substr)"

text \<open>
  \<open>strings.Split(s, sep)\<close> for a separator of one byte: \<open>s\<close> is cut at every
  occurrence, so \<open>n\<close> separators give \<open>n + 1\<close> fields, and the empty string gives
  one empty field.
\<close>

fun Split :: "string \<Rightarrow> char \<Rightarrow> string list" where
  "Split [] sep = [[]]"
| "Split (c # s) sep =
     (if c = sep then [] # Split s sep
      else (case Split s sep of [] \<Rightarrow> [[c]] | f # fs \<Rightarrow> (c # f) # fs))"

text \<open>\<open>strings.Trim(s, cutset)\<close> for a cutset of ASCII bytes: leading and trailing bytes
  of the cutset are removed.\<close>

definition Trim :: "string \<Rightarrow> string \<Rightarrow> string" where
  "Trim s cutset =
     rev (dropWhile (\<lambda>c. c \<in> set cutset) (rev (dropWhile (\<lambda>c. c \<in> set cutset) s)))"

subsection \<open>Packages strconv and fmt\<close>

definition is_digit :: "char \<Rightarrow> bool" where
  "is_digit c = (CHR ''0'' \<le> c \<and> c \<le> CHR ''9'')"

definition digits_value :: "string \<Rightarrow> int" where
  "digits_value ds = foldl (\<lambda>n ch. n * 10 + (of_char ch - 48)) 0 ds"

text \<open>
  \<open>strconv.Atoi\<close> with a 64-bit \<open>int\<close>: an optional sign and then decimal digits
  only.  The program drops the error (\<open>woj, _ := strconv.Atoi(...)\<close>) and keeps the
  value: 0 after a syntax error, the nearest 64-bit integer after a range error.
\<close>

definition Atoi :: "string \<Rightarrow> int" where
  "Atoi s =
     (let neg = (s \<noteq> [] \<and> hd s = CHR ''-'');
          ds = (if s \<noteq> [] \<and> (hd s = CHR ''-'' \<or> hd s = CHR ''+'') then tl s else s)
      in if ds = [] \<or> \<not> list_all is_digit ds then 0
         else if neg then max (- (2 ^ 63)) (- digits_value ds)
         else min (2 ^ 63 - 1) (digits_value ds))"

text \<open>The verb \<open>%d\<close> of \<open>fmt.Sprintf\<close>: decimal digits, after a minus sign for a
  negative integer.\<close>

fun FormatUint :: "nat \<Rightarrow> string" where
  "FormatUint n =
     (if n < 10 then [''0123456789'' ! n]
      else FormatUint (n div 10) @ [''0123456789'' ! (n mod 10)])"

definition FormatInt :: "int \<Rightarrow> string" where
  "FormatInt i = (if i < 0 then CHR ''-'' # FormatUint (nat (- i)) else FormatUint (nat i))"

subsection \<open>Package sort\<close>

text \<open>
  \<open>sort.Slice(x, less)\<close> is not stable, and its algorithm is the library's choice.
  The model takes the sorting function as a parameter \<open>sort_Slice\<close> of each function
  that sorts.  What Go promises of it is \<open>sort_Slice_contract\<close>: for a \<open>less\<close>
  function (\<open>lt\<close> below) that is a strict weak order, the result is a permutation of
  the slice in which no element is \<open>less\<close> than an earlier one.
  \<open>insertionSort\<close> is the algorithm Go runs on slices of at most 12 elements: each
  element in turn moves left while it is \<open>less\<close> than its left neighbour.
\<close>

definition strict_weak_order :: "('a \<Rightarrow> 'a \<Rightarrow> bool) \<Rightarrow> bool" where
  "strict_weak_order lt =
     ((\<forall>a. \<not> lt a a) \<and>
      (\<forall>a b c. lt a b \<and> lt b c \<longrightarrow> lt a c) \<and>
      (\<forall>a b c. \<not> lt a b \<and> \<not> lt b c \<longrightarrow> \<not> lt a c))"

definition sort_Slice_contract :: "(('a \<Rightarrow> 'a \<Rightarrow> bool) \<Rightarrow> 'a list \<Rightarrow> 'a list) \<Rightarrow> bool" where
  "sort_Slice_contract sort_Slice =
     (\<forall>lt x. strict_weak_order lt \<longrightarrow>
        mset (sort_Slice lt x) = mset x \<and>
        sorted_wrt (\<lambda>a b. \<not> lt b a) (sort_Slice lt x))"

text \<open>\<open>move_left lt x p\<close> takes the sorted part \<open>p\<close> from its right end (the list
  is reversed) and puts \<open>x\<close> in front of the first element it is not less than.\<close>

fun move_left :: "('a \<Rightarrow> 'a \<Rightarrow> bool) \<Rightarrow> 'a \<Rightarrow> 'a list \<Rightarrow> 'a list" where
  "move_left lt x [] = [x]"
| "move_left lt x (y # p) = (if lt x y then y # move_left lt x p else x # y # p)"

definition insertionSort :: "('a \<Rightarrow> 'a \<Rightarrow> bool) \<Rightarrow> 'a list \<Rightarrow> 'a list" where
  "insertionSort lt x = rev (foldl (\<lambda>p e. move_left lt e p) [] x)"

section \<open>Data model (main.go)\<close>

record StreetRecord =
  WOJ :: int
  POW :: int
  GMI :: int
  RODZGMI :: int
  SYM :: int
  SYMUL :: int
  CECHA :: string
  NAZWA1 :: string
  NAZWA2 :: string
  FullName :: string

record CityRecord =
  WOJ :: int
  POW :: int
  GMI :: int
  RODZGMI :: int
  RM :: int
  MZ :: int
  NAZWA :: string
  SYM :: int
  SYMPOD :: int

text \<open>The service holds the two sequences.  Its lock \<open>mu\<close> is not modelled: every
  function below is one call that runs alone.\<close>

record AutocompleteService =
  streets :: "StreetRecord list"
  cities :: "CityRecord list"

definition NewAutocompleteService :: AutocompleteService where
  "NewAutocompleteService = \<lparr>streets = [], cities = []\<rparr>"

section \<open>The loader (loaders.go)\<close>

text \<open>
  The reader is the string of the bytes not yet read.  \<open>readLine\<close> returns the line
  and the reader after it, or \<open>None\<close> for the error at the end of the input (the
  reader is then exhausted).  Carriage returns are dropped wherever they stand.
\<close>

fun readLine_from :: "string \<Rightarrow> string \<Rightarrow> (string \<times> string) option" where
  "readLine_from line [] = (if length line > 0 then Some (line, []) else None)"
| "readLine_from line (b # r) =
     (if b = CHR 0x0A then Some (line, r)
      else if b \<noteq> CHR 0x0D then readLine_from (line @ [b]) r
      else readLine_from line r)"

definition readLine :: "string \<Rightarrow> (string \<times> string) option" where
  "readLine r = readLine_from [] r"

text \<open>\<open>_, _ = readLine(scanner)\<close>: the header line is read and dropped, error or not.\<close>

definition skip_header :: "string \<Rightarrow> string" where
  "skip_header r = (case readLine r of None \<Rightarrow> [] | Some (line, r') \<Rightarrow> r')"

text \<open>The fields of a line after \<open>strings.Split\<close> and the cleaning loop.\<close>

definition clean_fields :: "strings_pkg \<Rightarrow> string list \<Rightarrow> string list" where
  "clean_fields U fs = map (\<lambda>f. Trim (TrimSpace U f) [CHR 0x22]) fs"

text \<open>The record built from the ten cleaned fields of a street line.\<close>

definition street_of_fields :: "string list \<Rightarrow> StreetRecord" where
  "street_of_fields fs =
     (let woj = Atoi (fs ! 0); pow = Atoi (fs ! 1); gmi = Atoi (fs ! 2);
          rodzgmi = Atoi (fs ! 3); sym = Atoi (fs ! 4); symul = Atoi (fs ! 5);
          cecha = fs ! 6; nazwa1 = fs ! 7; nazwa2 = fs ! 8
      in \<lparr>StreetRecord.WOJ = woj, StreetRecord.POW = pow, StreetRecord.GMI = gmi,
          StreetRecord.RODZGMI = rodzgmi, StreetRecord.SYM = sym, SYMUL = symul,
          CECHA = cecha, NAZWA1 = nazwa1, NAZWA2 = nazwa2,
          FullName = (if nazwa2 \<noteq> [] then cecha @ '' '' @ nazwa1 @ '' '' @ nazwa2
                      else cecha @ '' '' @ nazwa1)\<rparr>)"

definition city_of_fields :: "string list \<Rightarrow> CityRecord" where
  "city_of_fields fs =
     (let woj = Atoi (fs ! 0); pow = Atoi (fs ! 1); gmi = Atoi (fs ! 2);
          rodzgmi = Atoi (fs ! 3); rm = Atoi (fs ! 4); mz = Atoi (fs ! 5);
          sym = Atoi (fs ! 7); sympod = Atoi (fs ! 8)
      in \<lparr>WOJ = woj, POW = pow, GMI = gmi, RODZGMI = rodzgmi, RM = rm, MZ = mz,
          NAZWA = fs ! 6, SYM = sym, SYMPOD = sympod\<rparr>)"

text \<open>The loops of \<open>LoadCSV\<close> and \<open>LoadCitiesCSV\<close>: \<open>acc\<close> is \<open>s.streets\<close>
  (\<open>s.cities\<close>) so far, \<open>r\<close> the reader.\<close>

function LoadCSV_loop :: "strings_pkg \<Rightarrow> StreetRecord list \<Rightarrow> string \<Rightarrow> StreetRecord list" where
  "LoadCSV_loop U acc r =
     (case readLine r of
        None \<Rightarrow> acc
      | Some (line, r') \<Rightarrow>
          (let fs = Split line (CHR '';'') in
           if length fs \<noteq> 10 then LoadCSV_loop U acc r'
           else let fs = clean_fields U fs in
             if fs ! 7 = [] then LoadCSV_loop U acc r'
             else LoadCSV_loop U (acc @ [street_of_fields fs]) r'))"
  by pat_completeness auto
termination
proof -
  have shorter: "length r' < length r \<or> (r = [] \<and> line0 \<noteq> [])"
    if "readLine_from line0 r = Some (line, r')" for line0 r line r'
    using that by (induction r arbitrary: line0) (fastforce split: if_splits)+
  show ?thesis
    by (relation "measure (\<lambda>(U, acc, r). length r)")
       (auto simp: readLine_def dest!: shorter)
qed

function LoadCitiesCSV_loop :: "strings_pkg \<Rightarrow> CityRecord list \<Rightarrow> string \<Rightarrow> CityRecord list" where
  "LoadCitiesCSV_loop U acc r =
     (case readLine r of
        None \<Rightarrow> acc
      | Some (line, r') \<Rightarrow>
          (let fs = Split line (CHR '';'') in
           if length fs \<noteq> 10 then LoadCitiesCSV_loop U acc r'
           else let fs = clean_fields U fs in
             if fs ! 6 = [] then LoadCitiesCSV_loop U acc r'
             else LoadCitiesCSV_loop U (acc @ [city_of_fields fs]) r'))"
  by pat_completeness auto
termination
proof -
  have shorter: "length r' < length r \<or> (r = [] \<and> line0 \<noteq> [])"
    if "readLine_from line0 r = Some (line, r')" for line0 r line r'
    using that by (induction r arbitrary: line0) (fastforce split: if_splits)+
  show ?thesis
    by (relation "measure (\<lambda>(U, acc, r). length r)")
       (auto simp: readLine_def dest!: shorter)
qed

text \<open>
  The file system is a function from file names to what opening and reading gives.
  \<open>LoadCSV\<close> opens the file and then reads it with \<open>os.ReadFile\<close>;
  \<open>LoadCitiesCSV\<close> only reads it.  A failed load leaves the service as it was.
\<close>

datatype file_state = Unopenable | Unreadable | Readable string

datatype load_error = FailedToOpenFile | FailedToReadFile

definition LoadCSV ::
  "strings_pkg \<Rightarrow> (string \<Rightarrow> file_state) \<Rightarrow> AutocompleteService \<Rightarrow> string \<Rightarrow> load_error + AutocompleteService" where
  "LoadCSV U files s filename =
     (case files filename of
        Unopenable \<Rightarrow> Inl FailedToOpenFile
      | Unreadable \<Rightarrow> Inl FailedToReadFile
      | Readable data \<Rightarrow> Inr (s\<lparr>streets := LoadCSV_loop U [] (skip_header data)\<rparr>))"

definition LoadCitiesCSV ::
  "strings_pkg \<Rightarrow> (string \<Rightarrow> file_state) \<Rightarrow> AutocompleteService \<Rightarrow> string \<Rightarrow> load_error + AutocompleteService" where
  "LoadCitiesCSV U files s filename =
     (case files filename of
        Unopenable \<Rightarrow> Inl FailedToReadFile
      | Unreadable \<Rightarrow> Inl FailedToReadFile
      | Readable data \<Rightarrow> Inr (s\<lparr>cities := LoadCitiesCSV_loop U [] (skip_header data)\<rparr>))"

section \<open>The search (main.go)\<close>

text \<open>
  \<open>make([]T, 0, limit)\<close> panics at run time (\<open>makeslice: cap out of range\<close>) when
  \<open>limit\<close> is negative, and also when \<open>limit\<close> elements are more than the runtime
  allocates.  The largest capacity that \<open>make\<close> grants for the element type is the
  parameter \<open>maxcap\<close> of the function that calls \<open>make\<close>: it depends on the
  platform (the allocator's maximum divided by the size of an element) and on the memory
  at hand.
\<close>

datatype panic = MakesliceCapOutOfRange

definition makeslice_panics :: "int \<Rightarrow> int \<Rightarrow> bool" where
  "makeslice_panics maxcap cap = (cap < 0 \<or> maxcap < cap)"

subsection \<open>SearchStreets\<close>

text \<open>The loop over \<open>s.streets\<close>: \<open>results\<close> and \<open>seen\<close> are the loop's two
  variables, \<open>query\<close> is the query already lowercased and trimmed.  A key that the map
  \<open>seen\<close> does not hold reads as \<open>false\<close>.\<close>

fun SearchStreets_loop ::
  "strings_pkg \<Rightarrow> string \<Rightarrow> int \<Rightarrow> StreetRecord list \<Rightarrow> (string \<Rightarrow> bool) \<Rightarrow> StreetRecord list
   \<Rightarrow> StreetRecord list" where
  "SearchStreets_loop U query limit results seen [] = results"
| "SearchStreets_loop U query limit results seen (street # rest) =
     (if int (length results) \<ge> limit then results
      else let nazwa1Lower = ToLower U (NAZWA1 street) in
        if HasPrefix nazwa1Lower query \<or> Contains nazwa1Lower query then
          (if \<not> seen (FullName street)
           then SearchStreets_loop U query limit (results @ [street])
                  (seen(FullName street := True)) rest
           else SearchStreets_loop U query limit results seen rest)
        else SearchStreets_loop U query limit results seen rest)"

text \<open>The \<open>less\<close> function of the sort, on the two records it compares.\<close>

definition SearchStreets_less :: "strings_pkg \<Rightarrow> string \<Rightarrow> StreetRecord \<Rightarrow> StreetRecord \<Rightarrow> bool" where
  "SearchStreets_less U query ri rj =
     (let nazwa1i = ToLower U (NAZWA1 ri); nazwa1j = ToLower U (NAZWA1 rj);
          prefixI = HasPrefix nazwa1i query; prefixJ = HasPrefix nazwa1j query
      in if prefixI \<and> \<not> prefixJ then True
         else if \<not> prefixI \<and> prefixJ then False
         else NAZWA1 ri < NAZWA1 rj)"

definition SearchStreets ::
  "((StreetRecord \<Rightarrow> StreetRecord \<Rightarrow> bool) \<Rightarrow> StreetRecord list \<Rightarrow> StreetRecord list)
   \<Rightarrow> strings_pkg \<Rightarrow> int \<Rightarrow> AutocompleteService \<Rightarrow> string \<Rightarrow> int
   \<Rightarrow> panic + StreetRecord list" where
  "SearchStreets sort_Slice U maxcap s query limit =
     (if query = [] then Inr []
      else let query = ToLower U (TrimSpace U query) in
        if makeslice_panics maxcap limit then Inl MakesliceCapOutOfRange
        else Inr (sort_Slice (SearchStreets_less U query)
                    (SearchStreets_loop U query limit [] (\<lambda>k. False) (streets s))))"

subsection \<open>SearchCities\<close>

text \<open>\<open>fmt.Sprintf("%s-%d-%d-%d", city.NAZWA, city.WOJ, city.POW, city.GMI)\<close>.\<close>

definition city_key :: "CityRecord \<Rightarrow> string" where
  "city_key city =
     NAZWA city @ ''-'' @ FormatInt (WOJ city) @ ''-'' @ FormatInt (POW city) @ ''-'' @
     FormatInt (GMI city)"

fun SearchCities_loop ::
  "strings_pkg \<Rightarrow> string \<Rightarrow> int \<Rightarrow> int \<Rightarrow> int \<Rightarrow> int \<Rightarrow> CityRecord list \<Rightarrow> (string \<Rightarrow> bool)
   \<Rightarrow> CityRecord list \<Rightarrow> CityRecord list" where
  "SearchCities_loop U query woj pow gmi limit results seen [] = results"
| "SearchCities_loop U query woj pow gmi limit results seen (city # rest) =
     (if int (length results) \<ge> limit then results
      else if woj > 0 \<and> WOJ city \<noteq> woj then
        SearchCities_loop U query woj pow gmi limit results seen rest
      else if pow > 0 \<and> POW city \<noteq> pow then
        SearchCities_loop U query woj pow gmi limit results seen rest
      else if gmi > 0 \<and> GMI city \<noteq> gmi then
        SearchCities_loop U query woj pow gmi limit results seen rest
      else let nazwaLower = ToLower U (NAZWA city);
               matchesQuery = (query = [] \<or> HasPrefix nazwaLower query \<or> Contains nazwaLower query)
        in if matchesQuery then
             (let key = city_key city in
              if \<not> seen key
              then SearchCities_loop U query woj pow gmi limit (results @ [city])
                     (seen(key := True)) rest
              else SearchCities_loop U query woj pow gmi limit results seen rest)
           else SearchCities_loop U query woj pow gmi limit results seen rest)"

definition SearchCities_less :: "strings_pkg \<Rightarrow> string \<Rightarrow> CityRecord \<Rightarrow> CityRecord \<Rightarrow> bool" where
  "SearchCities_less U query ri rj =
     (if query = [] then NAZWA ri < NAZWA rj
      else let nazwaI = ToLower U (NAZWA ri); nazwaJ = ToLower U (NAZWA rj);
               prefixI = HasPrefix nazwaI query; prefixJ = HasPrefix nazwaJ query
        in if prefixI \<and> \<not> prefixJ then True
           else if \<not> prefixI \<and> prefixJ then False
           else NAZWA ri < NAZWA rj)"

definition SearchCities ::
  "((CityRecord \<Rightarrow> CityRecord \<Rightarrow> bool) \<Rightarrow> CityRecord list \<Rightarrow> CityRecord list)
   \<Rightarrow> strings_pkg \<Rightarrow> int \<Rightarrow> AutocompleteService \<Rightarrow> string \<Rightarrow> int \<Rightarrow> int \<Rightarrow> int \<Rightarrow> int
   \<Rightarrow> panic + CityRecord list" where
  "SearchCities sort_Slice U maxcap s query woj pow gmi limit =
     (let query = ToLower U (TrimSpace U query) in
      if makeslice_panics maxcap limit then Inl MakesliceCapOutOfRange
      else Inr (sort_Slice (SearchCities_less U query)
                  (SearchCities_loop U query woj pow gmi limit [] (\<lambda>k. False) (cities s))))"

subsection \<open>GetGMIForStreet\<close>

text \<open>
  An entry of the result, the map with the keys \<open>"woj"\<close>, \<open>"pow"\<close> and \<open>"gmi"\<close>,
  is the triple of the three values.  The empty result is \<open>[]\<close>, whether Go returns
  an empty slice (empty name) or a nil slice (no record matched).
\<close>

type_synonym gmi_entry = "int \<times> int \<times> int"

text \<open>\<open>fmt.Sprintf("%d-%d-%d", street.WOJ, street.POW, street.GMI)\<close>.\<close>

definition gmi_key :: "StreetRecord \<Rightarrow> string" where
  "gmi_key street =
     FormatInt (StreetRecord.WOJ street) @ ''-'' @ FormatInt (StreetRecord.POW street) @ ''-'' @
     FormatInt (StreetRecord.GMI street)"

fun GetGMIForStreet_loop ::
  "strings_pkg \<Rightarrow> string \<Rightarrow> gmi_entry list \<Rightarrow> (string \<Rightarrow> bool) \<Rightarrow> StreetRecord list
   \<Rightarrow> gmi_entry list" where
  "GetGMIForStreet_loop U streetNameLower results seen [] = results"
| "GetGMIForStreet_loop U streetNameLower results seen (street # rest) =
     (let nazwa1Lower = ToLower U (NAZWA1 street) in
      if nazwa1Lower = streetNameLower then
        (let key = gmi_key street in
         if \<not> seen key
         then GetGMIForStreet_loop U streetNameLower
                (results @ [(StreetRecord.WOJ street, StreetRecord.POW street, StreetRecord.GMI street)])
                (seen(key := True)) rest
         else GetGMIForStreet_loop U streetNameLower results seen rest)
      else GetGMIForStreet_loop U streetNameLower results seen rest)"

fun GetGMIForStreet_less :: "gmi_entry \<Rightarrow> gmi_entry \<Rightarrow> bool" where
  "GetGMIForStreet_less (woj_i, pow_i, gmi_i) (woj_j, pow_j, gmi_j) =
     (if woj_i \<noteq> woj_j then woj_i < woj_j
      else if pow_i \<noteq> pow_j then pow_i < pow_j
      else gmi_i < gmi_j)"

definition GetGMIForStreet ::
  "((gmi_entry \<Rightarrow> gmi_entry \<Rightarrow> bool) \<Rightarrow> gmi_entry list \<Rightarrow> gmi_entry list)
   \<Rightarrow> strings_pkg \<Rightarrow> AutocompleteService \<Rightarrow> string \<Rightarrow> gmi_entry list" where
  "GetGMIForStreet sort_Slice U s streetName =
     (let streetName = TrimSpace U streetName in
      if streetName = [] then []
      else let streetNameLower = ToLower U streetName in
        sort_Slice GetGMIForStreet_less
          (GetGMIForStreet_loop U streetNameLower [] (\<lambda>k. False) (streets s)))"

section \<open>Vocabulary of the statements\<close>

text \<open>The condition under which the loop of \<open>SearchStreets\<close> takes a record as a
  match, for the query already lowercased and trimmed.\<close>

definition street_matches :: "strings_pkg \<Rightarrow> string \<Rightarrow> StreetRecord \<Rightarrow> bool" where
  "street_matches U query street =
     (HasPrefix (ToLower U (NAZWA1 street)) query \<or> Contains (ToLower U (NAZWA1 street)) query)"

text \<open>The same for \<open>SearchCities\<close>: the three filters, then \<open>matchesQuery\<close>.\<close>

definition city_passes :: "int \<Rightarrow> int \<Rightarrow> int \<Rightarrow> CityRecord \<Rightarrow> bool" where
  "city_passes woj pow gmi city =
     (\<not> (woj > 0 \<and> WOJ city \<noteq> woj) \<and> \<not> (pow > 0 \<and> POW city \<noteq> pow) \<and>
      \<not> (gmi > 0 \<and> GMI city \<noteq> gmi))"

definition city_matches :: "strings_pkg \<Rightarrow> string \<Rightarrow> CityRecord \<Rightarrow> bool" where
  "city_matches U query city =
     (query = [] \<or> HasPrefix (ToLower U (NAZWA city)) query \<or>
      Contains (ToLower U (NAZWA city)) query)"

text \<open>\<open>first_per_key key seen xs\<close> keeps, in the order of \<open>xs\<close>, the first element
  of every key that is not in \<open>seen\<close>.\<close>

fun first_per_key :: "('a \<Rightarrow> 'k) \<Rightarrow> 'k set \<Rightarrow> 'a list \<Rightarrow> 'a list" where
  "first_per_key key seen [] = []"
| "first_per_key key seen (x # xs) =
     (if key x \<in> seen then first_per_key key seen xs
      else x # first_per_key key (insert (key x) seen) xs)"

text \<open>
  The lines of a file's text, said without the reader: the pieces between the line
  feeds, each without its carriage returns; what follows the last line feed is a line
  only if it is not empty.  The first line is the header, the others are the data
  lines.
\<close>

definition text_lines :: "string \<Rightarrow> string list" where
  "text_lines data =
     (let pieces = map (filter (\<lambda>b. b \<noteq> CHR 0x0D)) (Split data (CHR 0x0A))
      in if last pieces = [] then butlast pieces else pieces)"

definition data_lines :: "string \<Rightarrow> string list" where
  "data_lines data = tl (text_lines data)"

text \<open>A field trimmed of surrounding white space and then of surrounding quotes.\<close>

definition cleaned :: "strings_pkg \<Rightarrow> string \<Rightarrow> string" where
  "cleaned U f = Trim (TrimSpace U f) [CHR 0x22]"

text \<open>A valid line: exactly ten fields between semicolons, and the name field (index 7
  for streets, 6 for cities) not empty after trimming and quote-stripping.\<close>

definition valid_line :: "strings_pkg \<Rightarrow> nat \<Rightarrow> string \<Rightarrow> bool" where
  "valid_line U name_index line =
     (length (Split line (CHR '';'')) = 10 \<and>
      cleaned U (Split line (CHR '';'') ! name_index) \<noteq> [])"

text \<open>
  The record of a valid line as sections 3 and 6 of the specification describe it: the
  fields at their fixed positions, each trimmed and stripped of quotes, the numeric ones
  parsed, and the display name joined from type, name and (when not empty) second name.
\<close>

definition street_record :: "strings_pkg \<Rightarrow> string \<Rightarrow> StreetRecord" where
  "street_record U line =
     (let fld = (\<lambda>i. cleaned U (Split line (CHR '';'') ! i)) in
      \<lparr>StreetRecord.WOJ = Atoi (fld 0), StreetRecord.POW = Atoi (fld 1),
       StreetRecord.GMI = Atoi (fld 2), StreetRecord.RODZGMI = Atoi (fld 3),
       StreetRecord.SYM = Atoi (fld 4), SYMUL = Atoi (fld 5),
       CECHA = fld 6, NAZWA1 = fld 7, NAZWA2 = fld 8,
       FullName = (if fld 8 = [] then fld 6 @ '' '' @ fld 7
                   else fld 6 @ '' '' @ fld 7 @ '' '' @ fld 8)\<rparr>)"

definition city_record :: "strings_pkg \<Rightarrow> string \<Rightarrow> CityRecord" where
  "city_record U line =
     (let fld = (\<lambda>i. cleaned U (Split line (CHR '';'') ! i)) in
      \<lparr>WOJ = Atoi (fld 0), POW = Atoi (fld 1), GMI = Atoi (fld 2), RODZGMI = Atoi (fld 3),
       RM = Atoi (fld 4), MZ = Atoi (fld 5), NAZWA = fld 6, SYM = Atoi (fld 7),
       SYMPOD = Atoi (fld 8)\<rparr>)"

text \<open>For the proofs: the lines that repeated calls of \<open>readLine\<close> give until its
  error.\<close>

function read_lines :: "string \<Rightarrow> string list" where
  "read_lines r = (case readLine r of None \<Rightarrow> [] | Some (line, r') \<Rightarrow> line # read_lines r')"
  by pat_completeness auto
termination
proof -
  have shorter: "length r' < length r \<or> (r = [] \<and> line0 \<noteq> [])"
    if "readLine_from line0 r = Some (line, r')" for line0 r line r'
    using that by (induction r arbitrary: line0) (fastforce split: if_splits)+
  show ?thesis
    by (relation "measure length") (auto simp: readLine_def dest!: shorter)
qed

text \<open>
  The scan as section 4.2 of the specification words it, for comparison with
  \<open>SearchStreets_loop\<close>: it stops once \<open>limit\<close> matches were met, and a match that
  the deduplication drops counts as one of them (\<open>met\<close> is the number of matches met so far).
\<close>

fun scan_counting_dropped ::
  "strings_pkg \<Rightarrow> string \<Rightarrow> int \<Rightarrow> nat \<Rightarrow> StreetRecord list \<Rightarrow> (string \<Rightarrow> bool) \<Rightarrow> StreetRecord list
   \<Rightarrow> StreetRecord list" where
  "scan_counting_dropped U query limit met results seen [] = results"
| "scan_counting_dropped U query limit met results seen (street # rest) =
     (if int met \<ge> limit then results
      else if street_matches U query street then
        (if \<not> seen (FullName street)
         then scan_counting_dropped U query limit (met + 1) (results @ [street])
                (seen(FullName street := True)) rest
         else scan_counting_dropped U query limit (met + 1) results seen rest)
      else scan_counting_dropped U query limit met results seen rest)"

section \<open>A small dataset\<close>

text \<open>The text of a file from its lines, each ended by a line feed.\<close>

definition file_text :: "string list \<Rightarrow> string" where
  "file_text ls = concat (map (\<lambda>l. l @ [CHR 0x0A]) ls)"

text \<open>
  The data lines of the street file: a quoted name, a line of nine fields, a name padded
  with spaces, a name that is only two quotes, a name that is only spaces.  In the file
  every line ends with carriage return and line feed.
\<close>

definition ulic_lines :: "string list" where
  "ulic_lines =
     [''12;34;56;1;100;200;ul.;'' @ [CHR 0x22] @ ''Chopina'' @ [CHR 0x22] @ '';;x'',
      ''12;34;56;1;101;201;ul.;Chopina;;x'',
      ''12;34;56;1;102;202;ul.;Chopina;x'',
      ''14;65;1;8;103;203;al.;  Fryderyka Chopina ;;x'',
      ''2;64;1;1;104;204;ul.;'' @ [CHR 0x22, CHR 0x22] @ '';Chopina;x'',
      ''2;64;1;1;106;206;ul.;   ;Chopina;x'',
      ''2;64;1;1;105;205;ul.;Chopina;;x'']"

definition ulic_csv :: string where
  "ulic_csv = file_text (map (\<lambda>l. l @ [CHR 0x0D])
     (''WOJ;POW;GMI;RODZ_GMI;SYM;SYM_UL;CECHA;NAZWA_1;NAZWA_2;STAN_NA'' # ulic_lines))"

definition simc_lines :: "string list" where
  "simc_lines =
     [''12;61;1;1;96;1;'' @ [CHR 0x22] @ ''Krakow'' @ [CHR 0x22] @ '';950463;950463;x'',
      ''2;20;3;2;1;1;Krakowiany;872182;872182;x'',
      ''12;6;4;2;1;1;Nowa Wies;319126;319126;x'',
      ''12;61;1;1;96;1;Krakow;950470;950463;x'',
      ''2;20;3;2;1;1;Nowa Wies;872190;872190;x'']"

definition simc_csv :: string where
  "simc_csv = file_text
     (''WOJ;POW;GMI;RODZ_GMI;RM;MZ;NAZWA;SYM;SYMPOD;STAN_NA'' # simc_lines)"

definition demo_files :: "string \<Rightarrow> file_state" where
  "demo_files filename =
     (if filename = ''ULIC.csv'' then Readable ulic_csv
      else if filename = ''SIMC.csv'' then Readable simc_csv
      else Unopenable)"

definition mk_street :: "int \<Rightarrow> int \<Rightarrow> int \<Rightarrow> int \<Rightarrow> int \<Rightarrow> int \<Rightarrow> string \<Rightarrow> string \<Rightarrow> string \<Rightarrow> string
    \<Rightarrow> StreetRecord" where
  "mk_street w p g rg sy su ce n1 n2 fn =
     \<lparr>StreetRecord.WOJ = w, StreetRecord.POW = p, StreetRecord.GMI = g,
      StreetRecord.RODZGMI = rg, StreetRecord.SYM = sy, SYMUL = su, CECHA = ce,
      NAZWA1 = n1, NAZWA2 = n2, FullName = fn\<rparr>"

definition mk_city :: "int \<Rightarrow> int \<Rightarrow> int \<Rightarrow> int \<Rightarrow> int \<Rightarrow> int \<Rightarrow> string \<Rightarrow> int \<Rightarrow> int \<Rightarrow> CityRecord" where
  "mk_city w p g rg rm mz n sy sp =
     \<lparr>WOJ = w, POW = p, GMI = g, RODZGMI = rg, RM = rm, MZ = mz, NAZWA = n,
      SYM = sy, SYMPOD = sp\<rparr>"

definition demo_streets :: "StreetRecord list" where
  "demo_streets =
     [mk_street 12 34 56 1 100 200 ''ul.'' ''Chopina'' [] ''ul. Chopina'',
      mk_street 12 34 56 1 101 201 ''ul.'' ''Chopina'' [] ''ul. Chopina'',
      mk_street 14 65 1 8 103 203 ''al.'' ''Fryderyka Chopina'' [] ''al. Fryderyka Chopina'',
      mk_street 2 64 1 1 105 205 ''ul.'' ''Chopina'' [] ''ul. Chopina'']"

definition demo_cities :: "CityRecord list" where
  "demo_cities =
     [mk_city 12 61 1 1 96 1 ''Krakow'' 950463 950463,
      mk_city 2 20 3 2 1 1 ''Krakowiany'' 872182 872182,
      mk_city 12 6 4 2 1 1 ''Nowa Wies'' 319126 319126,
      mk_city 12 61 1 1 96 1 ''Krakow'' 950470 950463,
      mk_city 2 20 3 2 1 1 ''Nowa Wies'' 872190 872190]"

definition demo :: AutocompleteService where
  "demo = \<lparr>streets = demo_streets, cities = demo_cities\<rparr>"

text \<open>
  The capacities of linux/amd64 at their largest: the allocator's maximum is \<open>2^48\<close>
  bytes, a \<open>StreetRecord\<close> takes 112 bytes (six integers of 8 bytes, four strings of
  16) and a \<open>CityRecord\<close> 80.
\<close>

definition street_maxcap :: int where
  "street_maxcap = 2 ^ 48 div 112"

definition city_maxcap :: int where
  "city_maxcap = 2 ^ 48 div 80"

section \<open>Lemmas about the library functions\<close>

declare FormatUint.simps [simp del] LoadCSV_loop.simps [simp del]
  LoadCitiesCSV_loop.simps [simp del] read_lines.simps [simp del]

subsection \<open>Prefixes and substrings\<close>

lemma HasPrefix_Nil: "HasPrefix s []"
  by (simp add: HasPrefix_def)

lemma Contains_Nil: "Contains s []"
  by (cases s) (simp_all add: HasPrefix_Nil)

lemma HasPrefix_Contains: "HasPrefix s p \<Longrightarrow> Contains s p"
  by (cases s) (auto simp: HasPrefix_def)

lemma HasPrefix_iff: "HasPrefix s p \<longleftrightarrow> (\<exists>b. s = p @ b)"
proof
  assume "HasPrefix s p"
  then have "s = p @ drop (length p) s"
    by (metis HasPrefix_def append_take_drop_id)
  then show "\<exists>b. s = p @ b" ..
next
  assume "\<exists>b. s = p @ b"
  then show "HasPrefix s p" by (auto simp: HasPrefix_def)
qed

lemma Contains_iff: "Contains s sub \<longleftrightarrow> (\<exists>a b. s = a @ sub @ b)"
proof (induction s)
  case Nil
  then show ?case by auto
next
  case (Cons c s)
  show ?case
  proof
    assume "Contains (c # s) sub"
    then consider "HasPrefix (c # s) sub" | "Contains s sub" by auto
    then show "\<exists>a b. c # s = a @ sub @ b"
    proof cases
      case 1
      then obtain b where "c # s = sub @ b" by (auto simp: HasPrefix_iff)
      then have "c # s = [] @ sub @ b" by simp
      then show ?thesis by blast
    next
      case 2
      then obtain a b where "s = a @ sub @ b" using Cons.IH by blast
      then have "c # s = (c # a) @ sub @ b" by simp
      then show ?thesis by blast
    qed
  next
    assume "\<exists>a b. c # s = a @ sub @ b"
    then obtain a b where ab: "c # s = a @ sub @ b" by blast
    show "Contains (c # s) sub"
    proof (cases a)
      case Nil
      then have "HasPrefix (c # s) sub" using ab by (auto simp: HasPrefix_iff)
      then show ?thesis by simp
    next
      case (Cons a0 a')
      then have "s = a' @ sub @ b" using ab by simp
      then have "Contains s sub" using Cons.IH by blast
      then show ?thesis by simp
    qed
  qed
qed

subsection \<open>Sorting\<close>

lemma swo_asym: "strict_weak_order lt \<Longrightarrow> lt a b \<Longrightarrow> \<not> lt b a"
  unfolding strict_weak_order_def by blast

lemma swo_negtrans: "strict_weak_order lt \<Longrightarrow> \<not> lt a b \<Longrightarrow> \<not> lt b c \<Longrightarrow> \<not> lt a c"
  unfolding strict_weak_order_def by blast

lemma mset_move_left: "mset (move_left lt x p) = add_mset x (mset p)"
  by (induction p) auto

lemma set_move_left: "set (move_left lt x p) = insert x (set p)"
  by (induction p) auto

lemma sorted_move_left:
  assumes "strict_weak_order lt" and "sorted_wrt (\<lambda>a b. \<not> lt a b) p"
  shows "sorted_wrt (\<lambda>a b. \<not> lt a b) (move_left lt x p)"
  using assms(2)
proof (induction p)
  case Nil
  then show ?case by simp
next
  case (Cons y p)
  show ?case
  proof (cases "lt x y")
    case True
    then have "\<not> lt y x" using assms(1) by (rule swo_asym [rotated])
    then show ?thesis using True Cons by (auto simp: set_move_left)
  next
    case False
    have "\<not> lt x z" if "z \<in> set p" for z
    proof -
      have "\<not> lt y z" using Cons.prems that by auto
      with False show ?thesis using assms(1) swo_negtrans by metis
    qed
    then show ?thesis using False Cons.prems by auto
  qed
qed

lemma insertionSort_fold:
  assumes "strict_weak_order lt" and "sorted_wrt (\<lambda>a b. \<not> lt a b) p"
  shows "sorted_wrt (\<lambda>a b. \<not> lt a b) (foldl (\<lambda>p e. move_left lt e p) p x) \<and>
         mset (foldl (\<lambda>p e. move_left lt e p) p x) = mset p + mset x"
  using assms(2)
proof (induction x arbitrary: p)
  case Nil
  then show ?case by simp
next
  case (Cons e x)
  have "sorted_wrt (\<lambda>a b. \<not> lt a b) (move_left lt e p)"
    using assms(1) Cons.prems by (rule sorted_move_left)
  from Cons.IH [OF this] show ?case by (simp add: mset_move_left)
qed

lemma insertionSort_contract: "sort_Slice_contract insertionSort"
  unfolding sort_Slice_contract_def insertionSort_def
proof (intro allI impI)
  fix lt :: "'a \<Rightarrow> 'a \<Rightarrow> bool" and x
  assume swo: "strict_weak_order lt"
  have "sorted_wrt (\<lambda>a b. \<not> lt a b) []" by simp
  from insertionSort_fold [OF swo this, of x]
  show "mset (rev (foldl (\<lambda>p e. move_left lt e p) [] x)) = mset x \<and>
        sorted_wrt (\<lambda>a b. \<not> lt b a) (rev (foldl (\<lambda>p e. move_left lt e p) [] x))"
    by (simp add: sorted_wrt_rev)
qed

lemma contract_mset:
  "sort_Slice_contract srt \<Longrightarrow> strict_weak_order lt \<Longrightarrow> mset (srt lt x) = mset x"
  unfolding sort_Slice_contract_def by blast

lemma contract_sorted:
  "sort_Slice_contract srt \<Longrightarrow> strict_weak_order lt \<Longrightarrow> sorted_wrt (\<lambda>a b. \<not> lt b a) (srt lt x)"
  unfolding sort_Slice_contract_def by blast

lemma contract_set:
  "sort_Slice_contract srt \<Longrightarrow> strict_weak_order lt \<Longrightarrow> set (srt lt x) = set x"
  by (metis contract_mset set_mset_mset)

lemma contract_length:
  "sort_Slice_contract srt \<Longrightarrow> strict_weak_order lt \<Longrightarrow> length (srt lt x) = length x"
  by (metis contract_mset size_mset)

lemma contract_distinct_map:
  assumes "sort_Slice_contract srt" and "strict_weak_order lt"
  shows "distinct (map f (srt lt x)) = distinct (map f x)"
proof -
  have "mset (map f (srt lt x)) = mset (map f x)"
    using contract_mset [OF assms] by (metis mset_map)
  then show ?thesis by (rule mset_eq_imp_distinct_iff)
qed

lemma SearchStreets_less_swo: "strict_weak_order (SearchStreets_less U q)"
  unfolding strict_weak_order_def SearchStreets_less_def Let_def
  by (intro conjI allI impI) (auto split: if_splits)

lemma SearchCities_less_swo: "strict_weak_order (SearchCities_less U q)"
  unfolding strict_weak_order_def SearchCities_less_def Let_def
  by (intro conjI allI impI) (auto split: if_splits)

lemma GetGMIForStreet_less_eq: "GetGMIForStreet_less a b \<longleftrightarrow> a < b"
  by (cases a; cases b) (auto simp: less_prod_def)

lemma GetGMIForStreet_less_swo: "strict_weak_order GetGMIForStreet_less"
  unfolding strict_weak_order_def GetGMIForStreet_less_eq by auto

subsection \<open>Decimal numerals are read back\<close>

lemma digit_char:
  "k < 10 \<Longrightarrow> is_digit (''0123456789'' ! k) \<and> (of_char (''0123456789'' ! k) :: int) = 48 + int k"
proof -
  assume "k < 10"
  then have "k \<in> {0, 1, 2, 3, 4, 5, 6, 7, 8, 9}" by auto
  then show ?thesis by (auto simp: is_digit_def)
qed

lemma not_digit_minus: "\<not> is_digit (CHR ''-'')"
  by (simp add: is_digit_def)

lemma FormatUint_digits: "list_all is_digit (FormatUint n) \<and> FormatUint n \<noteq> []"
proof (induction n rule: FormatUint.induct)
  case (1 n)
  show ?case
  proof (cases "n < 10")
    case True
    then show ?thesis by (subst FormatUint.simps, subst FormatUint.simps) (simp add: digit_char)
  next
    case False
    then have "n mod 10 < 10" by simp
    then show ?thesis using False "1.IH"
      by (subst FormatUint.simps, subst (2) FormatUint.simps) (simp add: digit_char)
  qed
qed

lemma digits_value_snoc: "digits_value (ds @ [c]) = digits_value ds * 10 + (of_char c - 48)"
  by (simp add: digits_value_def)

lemma digits_value_FormatUint: "digits_value (FormatUint n) = int n"
proof (induction n rule: FormatUint.induct)
  case (1 n)
  show ?case
  proof (cases "n < 10")
    case True
    then show ?thesis by (subst FormatUint.simps) (simp add: digits_value_def digit_char)
  next
    case False
    then have "n mod 10 < 10" by simp
    moreover have "int (n div 10) * 10 + int (n mod 10) = int n"
      by (metis mult.commute of_nat_add of_nat_mult of_nat_numeral mult_div_mod_eq)
    ultimately show ?thesis using False "1.IH"
      by (subst FormatUint.simps) (simp add: digits_value_snoc digit_char)
  qed
qed

lemma FormatUint_inj: "FormatUint m = FormatUint n \<Longrightarrow> m = n"
  by (metis digits_value_FormatUint of_nat_eq_iff)

lemma digits_split:
  assumes "list_all is_digit ds" "list_all is_digit ds'"
    and "r = [] \<or> \<not> is_digit (hd r)" "r' = [] \<or> \<not> is_digit (hd r')"
    and "ds @ r = ds' @ r'"
  shows "ds = ds' \<and> r = r'"
proof -
  have tw: "takeWhile is_digit (d @ t) = d" if "list_all is_digit d" "t = [] \<or> \<not> is_digit (hd t)" for d t
  proof (cases t)
    case Nil
    then show ?thesis using that by (simp add: list_all_iff)
  next
    case (Cons a t')
    then show ?thesis using that by (simp add: list_all_iff takeWhile_append2)
  qed
  have "ds = takeWhile is_digit (ds @ r)" using tw assms(1,3) by simp
  also have "\<dots> = ds'" using tw assms(2,4,5) by simp
  finally show ?thesis using assms(5) by simp
qed

lemma FormatInt_append_inj:
  assumes "FormatInt i @ r = FormatInt j @ r'"
    and "r = [] \<or> \<not> is_digit (hd r)" "r' = [] \<or> \<not> is_digit (hd r')"
  shows "i = j \<and> r = r'"
proof -
  have hd_u: "is_digit (hd (FormatUint n @ t))" for n t
    using FormatUint_digits [of n] by (cases "FormatUint n") (auto)
  have u: "m = n \<and> t = t'" if "FormatUint m @ t = FormatUint n @ t'"
    "t = [] \<or> \<not> is_digit (hd t)" "t' = [] \<or> \<not> is_digit (hd t')" for m n t t'
    using digits_split [OF _ _ that(2,3,1)] FormatUint_digits FormatUint_inj by blast
  show ?thesis
  proof (cases "i < 0"; cases "j < 0")
    assume "i < 0" "j < 0"
    then have "FormatUint (nat (- i)) @ r = FormatUint (nat (- j)) @ r'"
      using assms(1) by (simp add: FormatInt_def)
    from u [OF this assms(2,3)] show ?thesis using \<open>i < 0\<close> \<open>j < 0\<close> by auto
  next
    assume "i < 0" "\<not> j < 0"
    then have "CHR ''-'' # FormatUint (nat (- i)) @ r = FormatUint (nat j) @ r'"
      using assms(1) by (simp add: FormatInt_def)
    then have "hd (FormatUint (nat j) @ r') = CHR ''-''" by (metis list.sel(1))
    then show ?thesis using hd_u [of "nat j" r'] not_digit_minus by simp
  next
    assume "\<not> i < 0" "j < 0"
    then have "FormatUint (nat i) @ r = CHR ''-'' # FormatUint (nat (- j)) @ r'"
      using assms(1) by (simp add: FormatInt_def)
    then have "hd (FormatUint (nat i) @ r) = CHR ''-''" by (metis list.sel(1))
    then show ?thesis using hd_u [of "nat i" r] not_digit_minus by simp
  next
    assume "\<not> i < 0" "\<not> j < 0"
    then have "FormatUint (nat i) @ r = FormatUint (nat j) @ r'"
      using assms(1) by (simp add: FormatInt_def)
    from u [OF this assms(2,3)] show ?thesis using \<open>\<not> i < 0\<close> \<open>\<not> j < 0\<close> by auto
  qed
qed

lemma gmi_key_inj:
  assumes "gmi_key a = gmi_key b"
  shows "StreetRecord.WOJ a = StreetRecord.WOJ b \<and> StreetRecord.POW a = StreetRecord.POW b \<and>
         StreetRecord.GMI a = StreetRecord.GMI b"
proof -
  let ?F = FormatInt
  have 1: "?F (StreetRecord.WOJ a) @ (CHR ''-'' # ?F (StreetRecord.POW a) @ CHR ''-'' # ?F (StreetRecord.GMI a)) =
           ?F (StreetRecord.WOJ b) @ (CHR ''-'' # ?F (StreetRecord.POW b) @ CHR ''-'' # ?F (StreetRecord.GMI b))"
    using assms by (simp add: gmi_key_def)
  from FormatInt_append_inj [OF 1] have w: "StreetRecord.WOJ a = StreetRecord.WOJ b"
    and 2: "?F (StreetRecord.POW a) @ (CHR ''-'' # ?F (StreetRecord.GMI a)) =
            ?F (StreetRecord.POW b) @ (CHR ''-'' # ?F (StreetRecord.GMI b))"
    by (simp_all add: not_digit_minus)
  from FormatInt_append_inj [OF 2] have p: "StreetRecord.POW a = StreetRecord.POW b"
    and 3: "?F (StreetRecord.GMI a) @ [] = ?F (StreetRecord.GMI b) @ []"
    by (simp_all add: not_digit_minus)
  from FormatInt_append_inj [OF 3] have "StreetRecord.GMI a = StreetRecord.GMI b" by simp
  with w p show ?thesis by simp
qed

section \<open>Lemmas about the loops\<close>

subsection \<open>The three scans\<close>

lemma first_per_key_subset: "set (first_per_key key S xs) \<subseteq> set xs"
  by (induction xs arbitrary: S) auto

lemma first_per_key_fresh: "x \<in> set (first_per_key key S xs) \<Longrightarrow> key x \<notin> S"
  by (induction xs arbitrary: S) (auto split: if_splits)

lemma first_per_key_distinct: "distinct (map key (first_per_key key S xs))"
  by (induction xs arbitrary: S) (auto dest: first_per_key_fresh)

lemma first_per_key_keys: "key ` set (first_per_key key S xs) = key ` set xs - S"
  by (induction xs arbitrary: S) auto

lemma first_per_key_find:
  "y \<in> set (first_per_key key S xs) \<Longrightarrow> find (\<lambda>x. key x = key y) xs = Some y"
proof (induction xs arbitrary: S)
  case Nil
  then show ?case by simp
next
  case (Cons x xs)
  show ?case
  proof (cases "key x \<in> S")
    case True
    then have y: "y \<in> set (first_per_key key S xs)" using Cons.prems by simp
    then have "key y \<notin> S" by (rule first_per_key_fresh)
    then have "key x \<noteq> key y" using True by auto
    then show ?thesis using Cons.IH [OF y] by simp
  next
    case False
    show ?thesis
    proof (cases "y = x")
      case True
      then show ?thesis by simp
    next
      case ne: False
      then have y: "y \<in> set (first_per_key key (insert (key x) S) xs)"
        using Cons.prems False by simp
      then have "key y \<notin> insert (key x) S" by (rule first_per_key_fresh)
      then have "key x \<noteq> key y" by auto
      then show ?thesis using Cons.IH [OF y] by simp
    qed
  qed
qed

lemma find_filter: "find Q (filter P xs) = find (\<lambda>x. P x \<and> Q x) xs"
  by (induction xs) auto

lemma seen_update: "{k. k \<noteq> a \<longrightarrow> seen k} = insert a (Collect seen)"
  by auto

lemma SearchStreets_loop_eq:
  "SearchStreets_loop U q limit results seen xs =
     results @ take (nat limit - length results)
       (first_per_key FullName {k. seen k} (filter (street_matches U q) xs))"
proof (induction xs arbitrary: results seen)
  case Nil
  then show ?case by simp
next
  case (Cons x xs)
  show ?case
  proof (cases "int (length results) \<ge> limit")
    case True
    then have "nat limit - length results = 0" by simp
    then show ?thesis using True by simp
  next
    case False
    then have pos: "nat limit - length results = Suc (nat limit - Suc (length results))" by simp
    show ?thesis
      using False by (simp add: Cons.IH Let_def street_matches_def seen_update pos)
  qed
qed

lemma SearchCities_loop_step:
  "SearchCities_loop U q woj pow gmi limit results seen (x # xs) =
     (if int (length results) \<ge> limit then results
      else if city_passes woj pow gmi x \<and> city_matches U q x \<and> \<not> seen (city_key x)
        then SearchCities_loop U q woj pow gmi limit (results @ [x]) (seen(city_key x := True)) xs
        else SearchCities_loop U q woj pow gmi limit results seen xs)"
  by (simp add: Let_def city_matches_def city_passes_def)

lemma SearchCities_loop_eq:
  "SearchCities_loop U q woj pow gmi limit results seen xs =
     results @ take (nat limit - length results)
       (first_per_key city_key {k. seen k}
          (filter (\<lambda>c. city_passes woj pow gmi c \<and> city_matches U q c) xs))"
proof (induction xs arbitrary: results seen)
  case Nil
  then show ?case by simp
next
  case (Cons x xs)
  show ?case
  proof (cases "int (length results) \<ge> limit")
    case True
    then have "nat limit - length results = 0" by simp
    then show ?thesis using True by simp
  next
    case False
    then have pos: "nat limit - length results = Suc (nat limit - Suc (length results))" by simp
    show ?thesis
      unfolding SearchCities_loop_step
      using False by (simp add: Cons.IH seen_update pos)
  qed
qed

lemma GetGMIForStreet_loop_eq:
  "GetGMIForStreet_loop U name results seen xs =
     results @ map (\<lambda>r. (StreetRecord.WOJ r, StreetRecord.POW r, StreetRecord.GMI r))
       (first_per_key gmi_key {k. seen k} (filter (\<lambda>r. ToLower U (NAZWA1 r) = name) xs))"
proof (induction xs arbitrary: results seen)
  case Nil
  then show ?case by simp
next
  case (Cons x xs)
  show ?case
    by (simp add: Cons.IH Let_def seen_update)
qed

subsection \<open>The loader\<close>

lemma readLine_from_shorter:
  "readLine_from line0 r = Some (line, r') \<Longrightarrow> length r' < length r \<or> (r = [] \<and> line0 \<noteq> [])"
  by (induction r arbitrary: line0) (fastforce split: if_splits)+

lemma readLine_shorter: "readLine r = Some (line, r') \<Longrightarrow> length r' < length r"
  using readLine_from_shorter [of "[]" r line r'] by (simp add: readLine_def)

lemma Split_not_Nil: "Split s sep \<noteq> []"
  by (induction s) (auto split: list.splits)

lemma Split_no_sep: "sep \<notin> set a \<Longrightarrow> Split a sep = [a]"
  by (induction a) auto

lemma Split_at_sep: "sep \<notin> set a \<Longrightarrow> Split (a @ sep # b) sep = a # Split b sep"
  by (induction a) auto

lemma readLine_from_no_feed:
  "CHR 0x0A \<notin> set r \<Longrightarrow>
   readLine_from line0 r =
     (if line0 @ filter (\<lambda>b. b \<noteq> CHR 0x0D) r \<noteq> []
      then Some (line0 @ filter (\<lambda>b. b \<noteq> CHR 0x0D) r, []) else None)"
  by (induction r arbitrary: line0) auto

lemma readLine_from_feed:
  "CHR 0x0A \<notin> set a \<Longrightarrow>
   readLine_from line0 (a @ CHR 0x0A # b) = Some (line0 @ filter (\<lambda>b. b \<noteq> CHR 0x0D) a, b)"
  by (induction a arbitrary: line0) auto

lemma read_lines_Nil: "read_lines [] = []"
  by (subst read_lines.simps) (simp add: readLine_def)

lemma read_lines_eq: "read_lines r = text_lines r"
proof (induction "length r" arbitrary: r rule: less_induct)
  case less
  let ?strip = "filter (\<lambda>b. b \<noteq> CHR 0x0D)"
  show ?case
  proof (cases "CHR 0x0A \<in> set r")
    case False
    then have "readLine r = (if ?strip r \<noteq> [] then Some (?strip r, []) else None)"
      by (simp add: readLine_def readLine_from_no_feed)
    then have "read_lines r = (if ?strip r \<noteq> [] then [?strip r] else [])"
      by (subst read_lines.simps) (simp add: read_lines_Nil)
    then show ?thesis
      using False by (simp add: text_lines_def Split_no_sep)
  next
    case True
    then obtain a b where r: "r = a @ CHR 0x0A # b" and a: "CHR 0x0A \<notin> set a"
      by (meson split_list_first)
    have "readLine r = Some (?strip a, b)"
      using a by (simp add: r readLine_def readLine_from_feed)
    then have 1: "read_lines r = ?strip a # read_lines b"
      by (subst read_lines.simps) simp
    have "length b < length r" by (simp add: r)
    then have 2: "read_lines b = text_lines b" by (rule less)
    have 3: "text_lines r = ?strip a # text_lines b"
      using a Split_not_Nil [of b "CHR 0x0A"]
      by (simp add: r text_lines_def Split_at_sep Let_def)
    show ?thesis by (simp add: 1 2 3)
  qed
qed

lemma read_lines_skip_header: "read_lines (skip_header data) = data_lines data"
proof -
  have "read_lines (skip_header data) = tl (read_lines data)"
    by (subst (2) read_lines.simps)
       (simp add: skip_header_def read_lines_Nil split: option.splits)
  then show ?thesis by (simp add: read_lines_eq data_lines_def)
qed

lemma clean_fields_nth: "i < length fs \<Longrightarrow> clean_fields U fs ! i = cleaned U (fs ! i)"
  by (simp add: clean_fields_def cleaned_def)

lemma street_of_fields_record:
  "length (Split line (CHR '';'')) = 10 \<Longrightarrow>
   street_of_fields (clean_fields U (Split line (CHR '';''))) = street_record U line"
  by (simp add: street_of_fields_def street_record_def Let_def clean_fields_nth)

lemma city_of_fields_record:
  "length (Split line (CHR '';'')) = 10 \<Longrightarrow>
   city_of_fields (clean_fields U (Split line (CHR '';''))) = city_record U line"
  by (simp add: city_of_fields_def city_record_def Let_def clean_fields_nth)

lemma LoadCSV_loop_eq:
  "LoadCSV_loop U acc r =
     acc @ map (street_record U) (filter (valid_line U 7) (read_lines r))"
proof (induction "length r" arbitrary: acc r rule: less_induct)
  case less
  show ?case
  proof (cases "readLine r")
    case None
    then show ?thesis by (subst LoadCSV_loop.simps, subst read_lines.simps) simp
  next
    case (Some p)
    obtain line r' where p: "p = (line, r')" by (cases p)
    have "length r' < length r" using Some p by (simp add: readLine_shorter)
    then have ih: "LoadCSV_loop U acc' r' =
        acc' @ map (street_record U) (filter (valid_line U 7) (read_lines r'))" for acc'
      by (rule less)
    show ?thesis
      using Some p
      by (subst LoadCSV_loop.simps, subst read_lines.simps)
         (simp add: ih Let_def valid_line_def clean_fields_nth street_of_fields_record)
  qed
qed

lemma LoadCitiesCSV_loop_eq:
  "LoadCitiesCSV_loop U acc r =
     acc @ map (city_record U) (filter (valid_line U 6) (read_lines r))"
proof (induction "length r" arbitrary: acc r rule: less_induct)
  case less
  show ?case
  proof (cases "readLine r")
    case None
    then show ?thesis by (subst LoadCitiesCSV_loop.simps, subst read_lines.simps) simp
  next
    case (Some p)
    obtain line r' where p: "p = (line, r')" by (cases p)
    have "length r' < length r" using Some p by (simp add: readLine_shorter)
    then have ih: "LoadCitiesCSV_loop U acc' r' =
        acc' @ map (city_record U) (filter (valid_line U 6) (read_lines r'))" for acc'
      by (rule less)
    show ?thesis
      using Some p
      by (subst LoadCitiesCSV_loop.simps, subst read_lines.simps)
         (simp add: ih Let_def valid_line_def clean_fields_nth city_of_fields_record)
  qed
qed

lemma street_record_NAZWA1:
  "valid_line U 7 line \<Longrightarrow> NAZWA1 (street_record U line) \<noteq> []"
  by (simp add: valid_line_def street_record_def Let_def)

lemma LoadCSV_eq:
  "files filename = Readable data \<Longrightarrow>
   LoadCSV U files s filename =
     Inr (s\<lparr>streets := map (street_record U) (filter (valid_line U 7) (data_lines data))\<rparr>)"
  by (simp add: LoadCSV_def LoadCSV_loop_eq read_lines_skip_header)

lemma LoadCitiesCSV_eq:
  "files filename = Readable data \<Longrightarrow>
   LoadCitiesCSV U files s filename =
     Inr (s\<lparr>cities := map (city_record U) (filter (valid_line U 6) (data_lines data))\<rparr>)"
  by (simp add: LoadCitiesCSV_def LoadCitiesCSV_loop_eq read_lines_skip_header)

subsection \<open>What the two searches return\<close>

lemma SearchStreets_Inr:
  "SearchStreets sortS U maxcap s query limit = Inr ys \<longleftrightarrow>
     (query = [] \<and> ys = []) \<or>
     (query \<noteq> [] \<and> 0 \<le> limit \<and> limit \<le> maxcap \<and>
      ys = sortS (SearchStreets_less U (ToLower U (TrimSpace U query)))
             (take (nat limit) (first_per_key FullName {}
                (filter (street_matches U (ToLower U (TrimSpace U query))) (streets s)))))"
  by (auto simp: SearchStreets_def makeslice_panics_def Let_def SearchStreets_loop_eq)

lemma SearchCities_Inr:
  "SearchCities sortC U maxcap s query woj pow gmi limit = Inr ys \<longleftrightarrow>
     0 \<le> limit \<and> limit \<le> maxcap \<and>
     ys = sortC (SearchCities_less U (ToLower U (TrimSpace U query)))
            (take (nat limit) (first_per_key city_key {}
               (filter (\<lambda>c. city_passes woj pow gmi c \<and>
                          city_matches U (ToLower U (TrimSpace U query)) c) (cities s))))"
  by (auto simp: SearchCities_def makeslice_panics_def Let_def SearchCities_loop_eq)

lemma contract_Nil: "sort_Slice_contract srt \<Longrightarrow> strict_weak_order lt \<Longrightarrow> srt lt [] = []"
  using contract_mset [of srt lt "[]"] by simp

lemma city_matches_empty: "city_matches U [] c"
  by (simp add: city_matches_def)

lemma first_per_key_append:
  "\<exists>rest. first_per_key key S (xs @ ys) = first_per_key key S xs @ rest"
  by (induction xs arbitrary: S) auto

lemma take_first_per_key_append:
  assumes "length (take n (first_per_key key S (filter P xs))) \<ge> n"
  shows "take n (first_per_key key S (filter P (xs @ later))) =
         take n (first_per_key key S (filter P xs))"
proof -
  obtain rest where "first_per_key key S (filter P xs @ filter P later) =
      first_per_key key S (filter P xs) @ rest"
    using first_per_key_append by blast
  then show ?thesis using assms by simp
qed

lemma scan_counting_dropped_eq:
  "scan_counting_dropped U q limit met results seen xs =
     results @ first_per_key FullName {k. seen k}
       (take (nat limit - met) (filter (street_matches U q) xs))"
proof (induction xs arbitrary: met results seen)
  case Nil
  then show ?case by simp
next
  case (Cons x xs)
  show ?case
  proof (cases "int met \<ge> limit")
    case True
    then have "nat limit - met = 0" by simp
    then show ?thesis using True by simp
  next
    case False
    then have pos: "nat limit - met = Suc (nat limit - Suc met)" by simp
    show ?thesis
      using False by (simp add: Cons.IH seen_update pos)
  qed
qed

lemma sorted_by_less_imp_sorted_map:
  assumes "sorted_wrt (\<lambda>a b. \<not> f b < f a) xs"
  shows "sorted (map (f :: 'a \<Rightarrow> 'b :: linorder) xs)"
proof -
  have "sorted_wrt (\<lambda>a b. f a \<le> f b) xs"
    using assms by (rule sorted_wrt_mono_rel [rotated]) auto
  then show ?thesis by (simp add: sorted_map)
qed

lemma LoadCSV_NAZWA1:
  assumes "LoadCSV U files s0 filename = Inr s" and "r \<in> set (streets s)"
  shows "NAZWA1 r \<noteq> []"
proof -
  obtain data where "streets s = LoadCSV_loop U [] (skip_header data)"
    using assms(1) by (auto simp: LoadCSV_def split: file_state.splits)
  then have "r \<in> street_record U ` {l. valid_line U 7 l}"
    using assms(2) by (auto simp: LoadCSV_loop_eq)
  then show ?thesis by (auto simp: street_record_NAZWA1)
qed

lemma distinct_map_coarser:
  assumes "distinct (map g xs)" and "\<And>a b. f a = f b \<Longrightarrow> g a = g b"
  shows "distinct (map f xs)"
  using assms(1)
proof (induction xs)
  case Nil
  then show ?case by simp
next
  case (Cons x xs)
  have "f x \<notin> f ` set xs"
  proof
    assume "f x \<in> f ` set xs"
    then obtain y where y: "y \<in> set xs" "f x = f y" by blast
    then have "g x = g y" using assms(2) by blast
    then have "g x \<in> g ` set xs" using y(1) by blast
    then show False using Cons.prems by simp
  qed
  then show ?case using Cons by simp
qed

lemma GetGMIForStreet_collected:
  fixes xs :: "StreetRecord list"
  defines "triple \<equiv> (\<lambda>r :: StreetRecord. (StreetRecord.WOJ r, StreetRecord.POW r, StreetRecord.GMI r))"
  shows "distinct (map triple (first_per_key gmi_key {} xs)) \<and>
         set (map triple (first_per_key gmi_key {} xs)) = triple ` set xs"
proof
  have inj: "triple a = triple b" if "gmi_key a = gmi_key b" for a b
    using gmi_key_inj [OF that] by (simp add: triple_def)
  have key: "gmi_key a = gmi_key b" if "triple a = triple b" for a b
    using that by (simp add: triple_def gmi_key_def)
  let ?L = "first_per_key gmi_key {} xs"
  have d: "distinct (map gmi_key ?L)" by (rule first_per_key_distinct)
  show "distinct (map triple ?L)"
    using d key by (rule distinct_map_coarser)
  show "set (map triple ?L) = triple ` set xs"
  proof
    have "set ?L \<subseteq> set xs" by (rule first_per_key_subset)
    then show "set (map triple ?L) \<subseteq> triple ` set xs" by auto
    show "triple ` set xs \<subseteq> set (map triple ?L)"
    proof
      fix t
      assume "t \<in> triple ` set xs"
      then obtain r where r: "r \<in> set xs" "t = triple r" by blast
      have "gmi_key ` set ?L = gmi_key ` set xs"
        by (simp add: first_per_key_keys)
      then have "gmi_key r \<in> gmi_key ` set ?L" using r(1) by blast
      then obtain r' where r': "r' \<in> set ?L" "gmi_key r = gmi_key r'" by blast
      have "triple r' = t" using inj [OF r'(2)] r(2) by simp
      then show "t \<in> set (map triple ?L)" using r'(1) by (simp add: image_iff) blast
    qed
  qed
qed

lemma GetGMIForStreet_sorted_unique:
  assumes "sort_Slice_contract srt" and "sort_Slice_contract srt'"
  shows "srt' GetGMIForStreet_less x = srt GetGMIForStreet_less x \<and>
         sorted (srt GetGMIForStreet_less x)"
proof -
  note swo = GetGMIForStreet_less_swo
  have s: "sorted (f GetGMIForStreet_less x)" if "sort_Slice_contract f" for f
  proof -
    have "sorted_wrt (\<lambda>a b. \<not> b < a) (f GetGMIForStreet_less x)"
      using contract_sorted [OF that swo, of x] by (simp add: GetGMIForStreet_less_eq)
    then have "sorted_wrt (\<le>) (f GetGMIForStreet_less x)"
      by (rule sorted_wrt_mono_rel [rotated]) auto
    then show ?thesis by simp
  qed
  have "sort x = srt GetGMIForStreet_less x"
    by (rule properties_for_sort [OF contract_mset [OF assms(1) swo] s [OF assms(1)]])
  moreover have "sort x = srt' GetGMIForStreet_less x"
    by (rule properties_for_sort [OF contract_mset [OF assms(2) swo] s [OF assms(2)]])
  ultimately show ?thesis using s [OF assms(1)] by simp
qed

lemma distinct_map_take: "distinct (map f xs) \<Longrightarrow> distinct (map f (take n xs))"
  by (simp add: take_map [symmetric] distinct_take)




section \<open>The dataset, evaluated\<close>

lemma demo_Chop:
  "SearchStreets insertionSort ascii street_maxcap demo ''Chop'' 10 = Inr [demo_streets ! 0, demo_streets ! 2]"
  by code_simp

lemma demo_ulic_lines: "data_lines ulic_csv = ulic_lines"
  by code_simp

lemma demo_ulic_valid:
  "map (valid_line ascii 7) ulic_lines = [True, True, False, True, False, False, True]"
  by code_simp

lemma demo_ulic_records:
  "map (street_record ascii) (filter (valid_line ascii 7) ulic_lines) = demo_streets"
  by code_simp

lemma demo_simc_lines: "data_lines simc_csv = simc_lines"
  by code_simp

lemma demo_simc_records:
  "map (city_record ascii) (filter (valid_line ascii 6) simc_lines) = demo_cities"
  by code_simp

lemma demo_maxcap: "0 \<le> street_maxcap" "10 \<le> street_maxcap" "0 \<le> city_maxcap"
  "3 \<le> city_maxcap" "10 \<le> city_maxcap"
  by (simp_all add: street_maxcap_def city_maxcap_def)

lemma demo_cities_empty_12:
  "SearchCities insertionSort ascii city_maxcap demo [] 12 0 0 10 = Inr [demo_cities ! 0, demo_cities ! 2]"
  by code_simp

lemma demo_krak:
  "SearchCities insertionSort ascii city_maxcap demo ''krak'' 12 0 0 5 = Inr [demo_cities ! 0]"
  by code_simp

lemma demo_krak_nofilter:
  "SearchCities insertionSort ascii city_maxcap demo ''krak'' 0 0 0 5 = Inr [demo_cities ! 0, demo_cities ! 1]"
  by code_simp

lemma demo_cities_all:
  "SearchCities insertionSort ascii city_maxcap demo [] 0 0 0 5 =
     Inr [demo_cities ! 0, demo_cities ! 1, demo_cities ! 2, demo_cities ! 4]"
  by code_simp

lemma demo_load_streets:
  "LoadCSV ascii demo_files \<lparr>streets = [], cities = demo_cities\<rparr> ''ULIC.csv'' = Inr demo"
  by code_simp

lemma demo_gmi_Chopina:
  "GetGMIForStreet insertionSort ascii demo ''Chopina'' = [(2, 64, 1), (12, 34, 56)]"
  by code_simp

lemma demo_chop_10:
  "SearchStreets insertionSort ascii street_maxcap demo ''chop'' 10 = Inr [demo_streets ! 0, demo_streets ! 2]"
  by code_simp

lemma demo_krak_10:
  "SearchCities insertionSort ascii city_maxcap demo ''krak'' 0 0 0 10 = Inr [demo_cities ! 0, demo_cities ! 1]"
  by code_simp


section \<open>The claims\<close>

subsection \<open>C1: the query operations return\<close>

text \<open>
  C1 as stated fails for a negative limit, and for a limit above the capacity that
  \<open>make\<close> grants: \<open>make([]StreetRecord, 0, limit)\<close> and
  \<open>make([]CityRecord, 0, limit)\<close> panic before the scan starts.
\<close>

theorem C1_counterexample:
  "SearchStreets insertionSort ascii street_maxcap demo ''chop'' (- 1) =
     Inl MakesliceCapOutOfRange \<and>
   SearchCities insertionSort ascii city_maxcap demo ''krak'' 0 0 0 (- 1) =
     Inl MakesliceCapOutOfRange \<and>
   SearchStreets insertionSort ascii street_maxcap demo ''chop'' (2 ^ 63 - 1) =
     Inl MakesliceCapOutOfRange \<and>
   SearchCities insertionSort ascii city_maxcap demo ''krak'' 0 0 0 (2 ^ 48) =
     Inl MakesliceCapOutOfRange"
  by (simp add: SearchStreets_def SearchCities_def makeslice_panics_def street_maxcap_def
      city_maxcap_def)

text \<open>
  C1, amended: for every query string and every limit from 0 up to the largest capacity
  that \<open>make\<close> grants, \<open>SearchStreets\<close> and \<open>SearchCities\<close> return normally,
  with at most \<open>limit\<close> records; a limit of zero gives the empty result;
  \<open>SearchStreets\<close> on the empty query returns the empty result for every limit,
  negative and large ones included.  \<open>GetGMIForStreet\<close> has no failing path (its model
  has no error value) and returns the empty result for a name that trims to the empty
  string.
\<close>

theorem C1_queries_return_within_capacity:
  assumes "sort_Slice_contract sortS" and "sort_Slice_contract sortC"
  shows "SearchStreets sortS U maxS s [] limit = Inr [] \<and>
         (0 \<le> limit \<and> limit \<le> maxS \<longrightarrow>
            (\<exists>ys. SearchStreets sortS U maxS s query limit = Inr ys \<and>
                   int (length ys) \<le> limit)) \<and>
         (0 \<le> limit \<and> limit \<le> maxC \<longrightarrow>
            (\<exists>zs. SearchCities sortC U maxC s query woj pow gmi limit = Inr zs \<and>
                   int (length zs) \<le> limit)) \<and>
         (0 \<le> maxS \<longrightarrow> SearchStreets sortS U maxS s query 0 = Inr []) \<and>
         (0 \<le> maxC \<longrightarrow> SearchCities sortC U maxC s query woj pow gmi 0 = Inr []) \<and>
         (TrimSpace U name = [] \<longrightarrow> GetGMIForStreet sortG U s name = [])"
proof (intro conjI impI)
  show "SearchStreets sortS U maxS s [] limit = Inr []"
    by (simp add: SearchStreets_def)
next
  assume "0 \<le> limit \<and> limit \<le> maxS"
  then show "\<exists>ys. SearchStreets sortS U maxS s query limit = Inr ys \<and> int (length ys) \<le> limit"
    by (cases "query = []")
       (auto simp: SearchStreets_Inr contract_length [OF assms(1) SearchStreets_less_swo])
next
  assume "0 \<le> limit \<and> limit \<le> maxC"
  then show "\<exists>zs. SearchCities sortC U maxC s query woj pow gmi limit = Inr zs \<and>
      int (length zs) \<le> limit"
    by (auto simp: SearchCities_Inr contract_length [OF assms(2) SearchCities_less_swo])
next
  assume "0 \<le> maxS"
  then show "SearchStreets sortS U maxS s query 0 = Inr []"
    by (simp add: SearchStreets_Inr contract_Nil [OF assms(1) SearchStreets_less_swo])
next
  assume "0 \<le> maxC"
  then show "SearchCities sortC U maxC s query woj pow gmi 0 = Inr []"
    by (simp add: SearchCities_Inr contract_Nil [OF assms(2) SearchCities_less_swo])
next
  assume "TrimSpace U name = []"
  then show "GetGMIForStreet sortG U s name = []"
    by (simp add: GetGMIForStreet_def)
qed

text \<open>The amended C1 on the dataset: two searches with limit 10 that return records,
  the same with limit 0, an empty query, a blank name.\<close>

theorem C1_witness:
  "SearchStreets insertionSort ascii street_maxcap demo ''chop'' 10 =
     Inr [demo_streets ! 0, demo_streets ! 2] \<and>
   SearchCities insertionSort ascii city_maxcap demo ''krak'' 0 0 0 10 =
     Inr [demo_cities ! 0, demo_cities ! 1] \<and>
   SearchStreets insertionSort ascii street_maxcap demo ''chop'' 0 = Inr [] \<and>
   SearchCities insertionSort ascii city_maxcap demo ''krak'' 0 0 0 0 = Inr [] \<and>
   SearchStreets insertionSort ascii street_maxcap demo [] 10 = Inr [] \<and>
   GetGMIForStreet insertionSort ascii demo '' '' = []"
proof -
  have trim: "TrimSpace ascii '' '' = []"
    by (simp add: ascii_def asciiSpace_def)
  show ?thesis
    using C1_queries_return_within_capacity
      [OF insertionSort_contract insertionSort_contract,
        where U = ascii and s = demo and limit = 10 and query = "''chop''"
          and maxS = street_maxcap and maxC = city_maxcap and woj = 0
          and pow = 0 and gmi = 0 and name = "'' ''" and sortG = insertionSort]
      C1_queries_return_within_capacity
      [OF insertionSort_contract insertionSort_contract,
        where U = ascii and s = demo and limit = 10 and query = "''krak''"
          and maxS = street_maxcap and maxC = city_maxcap and woj = 0
          and pow = 0 and gmi = 0 and name = "'' ''" and sortG = insertionSort]
      trim demo_maxcap
    by (simp add: demo_chop_10 demo_krak_10)
qed

subsection \<open>C2: what a street search returns\<close>

text \<open>
  C2: for a non-empty query \<open>q\<close> and a limit \<open>N\<close>, \<open>SearchStreets\<close>
  returns at most \<open>N\<close> records (it does return when \<open>N\<close> is not negative and
  not above the capacity that \<open>make\<close> grants);
  the lowercased \<open>NAZWA1\<close> of every returned record contains the lowercased trimmed
  \<open>q\<close> (\<open>Contains\<close> is the substring relation, lemma \<open>Contains_iff\<close>); and a
  returned record whose lowercased \<open>NAZWA1\<close> starts with it stands before every
  returned record whose lowercased \<open>NAZWA1\<close> does not.
\<close>

theorem C2_search_streets_result:
  assumes "sort_Slice_contract sortS" and "query \<noteq> []"
  shows "(0 \<le> limit \<and> limit \<le> maxS \<longrightarrow>
            (\<exists>ys. SearchStreets sortS U maxS s query limit = Inr ys)) \<and>
         (\<forall>ys. SearchStreets sortS U maxS s query limit = Inr ys \<longrightarrow>
            int (length ys) \<le> limit \<and>
            (\<forall>r \<in> set ys. Contains (ToLower U (NAZWA1 r)) (ToLower U (TrimSpace U query))) \<and>
            (\<forall>i j. i < length ys \<and> j < length ys \<and>
                HasPrefix (ToLower U (NAZWA1 (ys ! i))) (ToLower U (TrimSpace U query)) \<and>
                \<not> HasPrefix (ToLower U (NAZWA1 (ys ! j))) (ToLower U (TrimSpace U query))
                \<longrightarrow> i < j))"
proof (intro conjI impI allI)
  assume "0 \<le> limit \<and> limit \<le> maxS"
  then show "\<exists>ys. SearchStreets sortS U maxS s query limit = Inr ys"
    using assms(2) by (simp add: SearchStreets_Inr)
next
  fix ys
  assume r: "SearchStreets sortS U maxS s query limit = Inr ys"
  define q where "q = ToLower U (TrimSpace U query)"
  define collected where
    "collected = take (nat limit) (first_per_key FullName {} (filter (street_matches U q) (streets s)))"
  have nonneg: "0 \<le> limit" and ys: "ys = sortS (SearchStreets_less U q) collected"
    using r assms(2) by (simp_all add: SearchStreets_Inr q_def collected_def)
  note swo = SearchStreets_less_swo [of U q]
  have "length ys = length collected"
    unfolding ys by (rule contract_length [OF assms(1) swo])
  then show "int (length ys) \<le> limit"
    using nonneg by (simp add: collected_def)
  have "set ys = set collected"
    unfolding ys by (rule contract_set [OF assms(1) swo])
  also have "\<dots> \<subseteq> set (filter (street_matches U q) (streets s))"
    unfolding collected_def using first_per_key_subset set_take_subset by fastforce
  finally have m: "street_matches U q r" if "r \<in> set ys" for r
    using that by auto
  show "\<forall>r \<in> set ys. Contains (ToLower U (NAZWA1 r)) (ToLower U (TrimSpace U query))"
    using m HasPrefix_Contains unfolding street_matches_def q_def by blast
  have sorted: "sorted_wrt (\<lambda>a b. \<not> SearchStreets_less U q b a) ys"
    unfolding ys by (rule contract_sorted [OF assms(1) swo])
  fix i j
  assume ij: "i < length ys \<and> j < length ys \<and>
      HasPrefix (ToLower U (NAZWA1 (ys ! i))) (ToLower U (TrimSpace U query)) \<and>
      \<not> HasPrefix (ToLower U (NAZWA1 (ys ! j))) (ToLower U (TrimSpace U query))"
  then have less: "SearchStreets_less U q (ys ! i) (ys ! j)"
    by (simp add: SearchStreets_less_def q_def)
  show "i < j"
  proof (rule ccontr)
    assume "\<not> i < j"
    then consider "i = j" | "j < i" by linarith
    then show False
    proof cases
      case 1
      then show False using ij by simp
    next
      case 2
      then have "\<not> SearchStreets_less U q (ys ! i) (ys ! j)"
        using sorted_wrt_nth_less [OF sorted, of j i] ij by simp
      then show False using less by simp
    qed
  qed
qed

text \<open>C2 on the dataset: the query \<open>Chop\<close> with limit 10 returns \<open>ul. Chopina\<close>
  (a prefix match) before \<open>al. Fryderyka Chopina\<close>.\<close>

theorem C2_witness:
  "SearchStreets insertionSort ascii street_maxcap demo ''Chop'' 10 = Inr [demo_streets ! 0, demo_streets ! 2] \<and>
   int (length [demo_streets ! 0, demo_streets ! 2]) \<le> 10 \<and>
   Contains (ToLower ascii (NAZWA1 (demo_streets ! 0))) (ToLower ascii (TrimSpace ascii ''Chop'')) \<and>
   Contains (ToLower ascii (NAZWA1 (demo_streets ! 2))) (ToLower ascii (TrimSpace ascii ''Chop'')) \<and>
   HasPrefix (ToLower ascii (NAZWA1 (demo_streets ! 0))) (ToLower ascii (TrimSpace ascii ''Chop'')) \<and>
   \<not> HasPrefix (ToLower ascii (NAZWA1 (demo_streets ! 2))) (ToLower ascii (TrimSpace ascii ''Chop''))"
proof -
  have ne: "''Chop'' \<noteq> []" by simp
  have p0: "HasPrefix (ToLower ascii (NAZWA1 (demo_streets ! 0))) (ToLower ascii (TrimSpace ascii ''Chop''))"
    by code_simp
  have p2: "\<not> HasPrefix (ToLower ascii (NAZWA1 (demo_streets ! 2))) (ToLower ascii (TrimSpace ascii ''Chop''))"
    by code_simp
  from C2_search_streets_result [OF insertionSort_contract ne,
      where limit = 10 and U = ascii and s = demo and maxS = street_maxcap] demo_Chop
  have "int (length [demo_streets ! 0, demo_streets ! 2]) \<le> 10 \<and>
    (\<forall>r \<in> set [demo_streets ! 0, demo_streets ! 2].
       Contains (ToLower ascii (NAZWA1 r)) (ToLower ascii (TrimSpace ascii ''Chop'')))"
    by blast
  then show ?thesis using demo_Chop p0 p2 by simp
qed

subsection \<open>C3: the loader keeps the valid lines, in order\<close>

text \<open>
  C3: the data lines of a file are the lines of its text after the first.
  \<open>LoadCSV\<close> stores exactly one record for every data line that has ten
  semicolon-separated fields and a name field (index 7) that is not empty after trimming
  and quote-stripping, in the order of the lines, and the record is the one the fields of
  the line describe; every other line is left out and the lines after it are still
  loaded.  \<open>LoadCitiesCSV\<close> does the same with the name field at index 6.
\<close>

theorem C3_loader_keeps_valid_lines_in_order:
  assumes "files filename = Readable data"
  shows "LoadCSV U files s filename =
           Inr (s\<lparr>streets := map (street_record U)
                   (filter (valid_line U 7) (data_lines data))\<rparr>) \<and>
         LoadCitiesCSV U files s filename =
           Inr (s\<lparr>cities := map (city_record U)
                   (filter (valid_line U 6) (data_lines data))\<rparr>)"
  using assms by (simp add: LoadCSV_eq LoadCitiesCSV_eq)

text \<open>
  C3 on the dataset.  Of the seven data lines of the street file, the first (its name in
  quotes), the second, the fourth (its name padded with spaces) and the seventh are
  valid and give the four records in this order; the line of nine fields, the line
  whose name is two quotes and the line whose name is spaces are left out.  The five
  lines of the city file give five records.
\<close>

theorem C3_witness:
  "demo_files ''ULIC.csv'' = Readable ulic_csv \<and>
   LoadCSV ascii demo_files NewAutocompleteService ''ULIC.csv'' =
     Inr \<lparr>streets = demo_streets, cities = []\<rparr> \<and>
   data_lines ulic_csv = ulic_lines \<and>
   map (valid_line ascii 7) ulic_lines = [True, True, False, True, False, False, True] \<and>
   length demo_streets = 4 \<and>
   demo_files ''SIMC.csv'' = Readable simc_csv \<and>
   LoadCitiesCSV ascii demo_files NewAutocompleteService ''SIMC.csv'' =
     Inr \<lparr>streets = [], cities = demo_cities\<rparr>"
proof -
  have u: "demo_files ''ULIC.csv'' = Readable ulic_csv"
    and c: "demo_files ''SIMC.csv'' = Readable simc_csv"
    by (simp_all add: demo_files_def)
  have n: "length demo_streets = 4"
    by (simp add: demo_streets_def)
  show ?thesis
    using C3_loader_keeps_valid_lines_in_order
        [where files = demo_files and filename = "''ULIC.csv''" and data = ulic_csv
           and U = ascii and s = NewAutocompleteService, OF u]
      C3_loader_keeps_valid_lines_in_order
        [where files = demo_files and filename = "''SIMC.csv''" and data = simc_csv
           and U = ascii and s = NewAutocompleteService, OF c]
      u c n demo_ulic_valid
    by (simp add: demo_ulic_lines demo_simc_lines demo_ulic_records demo_simc_records
        NewAutocompleteService_def)
qed

subsection \<open>C4: the empty query\<close>

text \<open>
  C4: \<open>SearchStreets\<close> on the empty query returns the empty sequence for every
  limit, while for \<open>SearchCities\<close> the empty query matches every record: for every
  limit, what the call returns are the first \<open>limit\<close> records, one per key, among
  all records that pass the administrative filters (and it does return when the limit
  is not negative and not above the capacity that \<open>make\<close> grants).  Go's
  \<open>ToLower(TrimSpace(""))\<close> is the empty string, which is the assumption on \<open>U\<close>.
\<close>

theorem C4_empty_query_asymmetry:
  assumes "sort_Slice_contract sortC" and "ToLower U (TrimSpace U []) = []"
  shows "SearchStreets sortS U maxS s [] limit' = Inr [] \<and>
         (\<forall>c. city_matches U (ToLower U (TrimSpace U [])) c) \<and>
         (\<forall>zs. SearchCities sortC U maxC s [] woj pow gmi limit = Inr zs \<longrightarrow>
               mset zs = mset (take (nat limit) (first_per_key city_key {}
                                  (filter (city_passes woj pow gmi) (cities s))))) \<and>
         (0 \<le> limit \<and> limit \<le> maxC \<longrightarrow>
            (\<exists>zs. SearchCities sortC U maxC s [] woj pow gmi limit = Inr zs))"
proof (intro conjI)
  show "SearchStreets sortS U maxS s [] limit' = Inr []"
    by (simp add: SearchStreets_def)
  show "\<forall>c. city_matches U (ToLower U (TrimSpace U [])) c"
    by (simp add: assms(2) city_matches_empty)
  show "\<forall>zs. SearchCities sortC U maxC s [] woj pow gmi limit = Inr zs \<longrightarrow>
      mset zs = mset (take (nat limit) (first_per_key city_key {}
                        (filter (city_passes woj pow gmi) (cities s))))"
    by (simp add: SearchCities_Inr assms(2) city_matches_empty
        contract_mset [OF assms(1) SearchCities_less_swo])
  show "0 \<le> limit \<and> limit \<le> maxC \<longrightarrow>
      (\<exists>zs. SearchCities sortC U maxC s [] woj pow gmi limit = Inr zs)"
    by (simp add: SearchCities_Inr)
qed

text \<open>C4 on the dataset: with the empty query and \<open>woj = 12\<close> the city search
  returns the two distinct localities of voivodeship 12.\<close>

theorem C4_witness:
  "SearchStreets insertionSort ascii street_maxcap demo [] 10 = Inr [] \<and>
   SearchCities insertionSort ascii city_maxcap demo [] 12 0 0 10 =
     Inr [demo_cities ! 0, demo_cities ! 2] \<and>
   mset [demo_cities ! 0, demo_cities ! 2] =
     mset (take (nat 10) (first_per_key city_key {} (filter (city_passes 12 0 0) (cities demo))))"
proof -
  have e: "ToLower ascii (TrimSpace ascii []) = []"
    by (simp add: ascii_def)
  show ?thesis
    using C4_empty_query_asymmetry [OF insertionSort_contract e,
        where s = demo and woj = 12 and pow = 0 and gmi = 0 and sortS = insertionSort
          and limit' = 10 and limit = 10 and maxS = street_maxcap and maxC = city_maxcap]
    by (simp add: demo_cities_empty_12)
qed

subsection \<open>C5: the administrative filters\<close>

text \<open>
  C5: every record \<open>SearchCities\<close> returns equals each positive filter in the
  corresponding field; the returned records are the first \<open>limit\<close> records, one per
  key, among those that satisfy every positive filter and match the query, so a filter
  of 0 constrains nothing; and \<open>SearchCities("krak", 12, 0, 0, 5)\<close> returns no record
  whose \<open>WOJ\<close> is not 12.
\<close>

theorem C5_city_filters:
  assumes "sort_Slice_contract sortC"
    and "SearchCities sortC U maxC s query woj pow gmi limit = Inr zs"
  shows "(\<forall>c \<in> set zs. (0 < woj \<longrightarrow> WOJ c = woj) \<and> (0 < pow \<longrightarrow> POW c = pow) \<and>
                        (0 < gmi \<longrightarrow> GMI c = gmi)) \<and>
         mset zs = mset (take (nat limit) (first_per_key city_key {}
           (filter (\<lambda>c. (0 < woj \<longrightarrow> WOJ c = woj) \<and> (0 < pow \<longrightarrow> POW c = pow) \<and>
                         (0 < gmi \<longrightarrow> GMI c = gmi) \<and>
                         city_matches U (ToLower U (TrimSpace U query)) c) (cities s)))) \<and>
         (woj = 0 \<and> pow = 0 \<and> gmi = 0 \<longrightarrow>
            mset zs = mset (take (nat limit) (first_per_key city_key {}
              (filter (city_matches U (ToLower U (TrimSpace U query))) (cities s))))) \<and>
         (query = ''krak'' \<and> woj = 12 \<and> pow = 0 \<and> gmi = 0 \<and> limit = 5 \<longrightarrow>
            (\<forall>c \<in> set zs. WOJ c = 12))"
proof -
  define q where "q = ToLower U (TrimSpace U query)"
  define P where "P = (\<lambda>c. (0 < woj \<longrightarrow> WOJ c = woj) \<and> (0 < pow \<longrightarrow> POW c = pow) \<and>
                         (0 < gmi \<longrightarrow> GMI c = gmi) \<and> city_matches U q c)"
  have P: "(\<lambda>c. city_passes woj pow gmi c \<and> city_matches U q c) = P"
    by (auto simp: P_def city_passes_def)
  define collected where "collected = take (nat limit) (first_per_key city_key {} (filter P (cities s)))"
  have zs: "zs = sortC (SearchCities_less U q) collected"
    using assms(2) by (simp add: SearchCities_Inr q_def [symmetric] P collected_def)
  note swo = SearchCities_less_swo [of U q]
  have m: "mset zs = mset collected"
    unfolding zs by (rule contract_mset [OF assms(1) swo])
  have "set zs = set collected"
    using m by (metis set_mset_mset)
  also have "\<dots> \<subseteq> set (filter P (cities s))"
    unfolding collected_def using first_per_key_subset set_take_subset by fastforce
  finally have all: "P c" if "c \<in> set zs" for c
    using that by auto
  have 1: "\<forall>c \<in> set zs. (0 < woj \<longrightarrow> WOJ c = woj) \<and> (0 < pow \<longrightarrow> POW c = pow) \<and>
                        (0 < gmi \<longrightarrow> GMI c = gmi)"
    using all by (simp add: P_def)
  have 2: "mset zs = mset (take (nat limit) (first_per_key city_key {} (filter P (cities s))))"
    using m by (simp add: collected_def)
  have 3: "woj = 0 \<and> pow = 0 \<and> gmi = 0 \<longrightarrow>
      mset zs = mset (take (nat limit) (first_per_key city_key {}
        (filter (city_matches U q) (cities s))))"
    using 2 by (auto simp: P_def)
  have 4: "query = ''krak'' \<and> woj = 12 \<and> pow = 0 \<and> gmi = 0 \<and> limit = 5 \<longrightarrow>
      (\<forall>c \<in> set zs. WOJ c = 12)"
    using 1 by auto
  show ?thesis
    using 1 2 3 4 unfolding P_def q_def by blast
qed

text \<open>C5 on the dataset: with \<open>woj = 12\<close> the query \<open>krak\<close> returns Krakow
  only; without the filter it also returns Krakowiany of voivodeship 2.\<close>

theorem C5_witness:
  "SearchCities insertionSort ascii city_maxcap demo ''krak'' 12 0 0 5 = Inr [demo_cities ! 0] \<and>
   WOJ (demo_cities ! 0) = 12 \<and>
   SearchCities insertionSort ascii city_maxcap demo ''krak'' 0 0 0 5 = Inr [demo_cities ! 0, demo_cities ! 1] \<and>
   WOJ (demo_cities ! 1) = 2"
proof -
  have "\<forall>c \<in> set [demo_cities ! 0]. WOJ c = 12"
    using C5_city_filters [OF insertionSort_contract demo_krak] by blast
  then show ?thesis
    by (simp add: demo_krak demo_krak_nofilter) (simp add: demo_cities_def mk_city_def)
qed

subsection \<open>C6: the order of an unfiltered city search\<close>

text \<open>
  C6 as stated fails: two localities of the same name in different municipalities have
  different keys, both are returned, and their names are equal, so the order by name is
  not strict.
\<close>

theorem C6_counterexample:
  "SearchCities insertionSort ascii city_maxcap demo [] 0 0 0 5 =
     Inr [demo_cities ! 0, demo_cities ! 1, demo_cities ! 2, demo_cities ! 4] \<and>
   NAZWA (demo_cities ! 2) = NAZWA (demo_cities ! 4) \<and>
   \<not> sorted_wrt (<) (map NAZWA [demo_cities ! 0, demo_cities ! 1, demo_cities ! 2, demo_cities ! 4])"
  by (simp add: demo_cities_all) (simp add: demo_cities_def mk_city_def)

text \<open>
  C6, amended: for every limit \<open>N\<close>, what \<open>SearchCities("", 0, 0, 0, N)\<close>
  returns are at most \<open>N\<close> records in ascending order of \<open>NAZWA\<close> under byte
  order, where records of equal name may follow each other; and it does return when
  \<open>N\<close> is not negative and not above the capacity that \<open>make\<close> grants.
\<close>

theorem C6_empty_city_search_ascending:
  assumes "sort_Slice_contract sortC" and "ToLower U (TrimSpace U []) = []"
  shows "(0 \<le> limit \<and> limit \<le> maxC \<longrightarrow>
            (\<exists>zs. SearchCities sortC U maxC s [] 0 0 0 limit = Inr zs)) \<and>
         (\<forall>zs. SearchCities sortC U maxC s [] 0 0 0 limit = Inr zs \<longrightarrow>
            int (length zs) \<le> limit \<and> sorted (map NAZWA zs))"
proof (intro conjI allI impI)
  assume "0 \<le> limit \<and> limit \<le> maxC"
  then show "\<exists>zs. SearchCities sortC U maxC s [] 0 0 0 limit = Inr zs"
    by (simp add: SearchCities_Inr)
next
  fix zs
  assume r: "SearchCities sortC U maxC s [] 0 0 0 limit = Inr zs"
  define collected where "collected = take (nat limit) (first_per_key city_key {}
     (filter (\<lambda>c. city_passes 0 0 0 c \<and> city_matches U [] c) (cities s)))"
  note swo = SearchCities_less_swo [of U "[]"]
  have nonneg: "0 \<le> limit" and zs: "zs = sortC (SearchCities_less U []) collected"
    using r by (simp_all add: SearchCities_Inr assms(2) collected_def)
  have "length zs = length collected"
    unfolding zs by (rule contract_length [OF assms(1) swo])
  then show "int (length zs) \<le> limit"
    using nonneg by (simp add: collected_def)
  have "sorted_wrt (\<lambda>a b. \<not> SearchCities_less U [] b a) zs"
    unfolding zs by (rule contract_sorted [OF assms(1) swo])
  then have "sorted_wrt (\<lambda>a b. \<not> NAZWA b < NAZWA a) zs"
    by (simp add: SearchCities_less_def)
  then show "sorted (map NAZWA zs)"
    by (rule sorted_by_less_imp_sorted_map)
qed

text \<open>The amended C6 on the dataset, with limit 3.\<close>

theorem C6_witness:
  "SearchCities insertionSort ascii city_maxcap demo [] 0 0 0 3 =
     Inr [demo_cities ! 0, demo_cities ! 1, demo_cities ! 2] \<and>
   int (length [demo_cities ! 0, demo_cities ! 1, demo_cities ! 2]) \<le> 3 \<and>
   sorted (map NAZWA [demo_cities ! 0, demo_cities ! 1, demo_cities ! 2])"
proof -
  have e: "ToLower ascii (TrimSpace ascii []) = []"
    by (simp add: ascii_def)
  have v: "SearchCities insertionSort ascii city_maxcap demo [] 0 0 0 3 =
     Inr [demo_cities ! 0, demo_cities ! 1, demo_cities ! 2]"
    by code_simp
  show ?thesis
    using C6_empty_city_search_ascending [OF insertionSort_contract e,
        where s = demo and limit = 3 and maxC = city_maxcap]
    by (simp add: v)
qed

subsection \<open>C7: the municipalities of a street name\<close>

text \<open>
  C7: on a loaded dataset and for every name, \<open>GetGMIForStreet\<close> gives the same
  result on every call, whatever order the sort leaves equal elements in (the result
  does not depend on the sorting function); the result has no duplicate triple, is sorted
  ascending in the lexicographic order of \<open>(woj, pow, gmi)\<close>, and its entries are
  exactly the triples of the street records whose \<open>NAZWA1\<close> equals the trimmed name
  after lowercasing both.  Go's \<open>ToLower\<close> gives the empty string for the empty
  string only, which is the assumption on \<open>U\<close>.
\<close>

theorem C7_gmi_for_street:
  assumes "sort_Slice_contract sortG" and "sort_Slice_contract sortG'"
    and "LoadCSV U files s0 filename = Inr s"
    and "\<forall>x. (ToLower U x = []) = (x = [])"
  shows "GetGMIForStreet sortG' U s name = GetGMIForStreet sortG U s name \<and>
         distinct (GetGMIForStreet sortG U s name) \<and>
         sorted_wrt (<) (GetGMIForStreet sortG U s name) \<and>
         set (GetGMIForStreet sortG U s name) =
           {(StreetRecord.WOJ r, StreetRecord.POW r, StreetRecord.GMI r) | r.
              r \<in> set (streets s) \<and> ToLower U (NAZWA1 r) = ToLower U (TrimSpace U name)}"
proof (cases "TrimSpace U name = []")
  case True
  have "ToLower U (NAZWA1 r) \<noteq> ToLower U []" if "r \<in> set (streets s)" for r
    using LoadCSV_NAZWA1 [OF assms(3) that] assms(4) by metis
  then show ?thesis using True by (auto simp: GetGMIForStreet_def)
next
  case False
  define triple where
    "triple = (\<lambda>r :: StreetRecord. (StreetRecord.WOJ r, StreetRecord.POW r, StreetRecord.GMI r))"
  define F where "F = filter (\<lambda>r. ToLower U (NAZWA1 r) = ToLower U (TrimSpace U name)) (streets s)"
  define collected where "collected = map triple (first_per_key gmi_key {} F)"
  have res: "GetGMIForStreet f U s name = f GetGMIForStreet_less collected" for f
    using False
    by (simp add: GetGMIForStreet_def Let_def GetGMIForStreet_loop_eq collected_def F_def triple_def)
  note swo = GetGMIForStreet_less_swo
  have c: "distinct collected" "set collected = triple ` set F"
    using GetGMIForStreet_collected [of F] by (simp_all add: collected_def triple_def)
  have m: "mset (sortG GetGMIForStreet_less collected) = mset collected"
    by (rule contract_mset [OF assms(1) swo])
  have d: "distinct (sortG GetGMIForStreet_less collected)"
    using c(1) m by (metis mset_eq_imp_distinct_iff)
  have u: "sortG' GetGMIForStreet_less collected = sortG GetGMIForStreet_less collected"
    and so: "sorted (sortG GetGMIForStreet_less collected)"
    using GetGMIForStreet_sorted_unique [OF assms(1,2)] by blast+
  have st: "sorted_wrt (<) (sortG GetGMIForStreet_less collected)"
    using so d by (simp add: strict_sorted_iff)
  have "set (sortG GetGMIForStreet_less collected) = triple ` set F"
    using m c(2) by (metis set_mset_mset)
  also have "\<dots> = {(StreetRecord.WOJ r, StreetRecord.POW r, StreetRecord.GMI r) | r.
              r \<in> set (streets s) \<and> ToLower U (NAZWA1 r) = ToLower U (TrimSpace U name)}"
    by (auto simp: F_def triple_def)
  finally show ?thesis using u d st by (simp add: res)
qed

text \<open>C7 on the dataset: \<open>Chopina\<close> is a street of two municipalities; the
  record \<open>Fryderyka Chopina\<close> is no exact match.\<close>

theorem C7_witness:
  "LoadCSV ascii demo_files \<lparr>streets = [], cities = demo_cities\<rparr> ''ULIC.csv'' = Inr demo \<and>
   GetGMIForStreet insertionSort ascii demo ''Chopina'' = [(2, 64, 1), (12, 34, 56)] \<and>
   distinct [(2, 64, 1), (12, 34, 56) :: gmi_entry] \<and>
   sorted_wrt (<) [(2, 64, 1), (12, 34, 56) :: gmi_entry] \<and>
   set [(2, 64, 1), (12, 34, 56) :: gmi_entry] =
     {(StreetRecord.WOJ r, StreetRecord.POW r, StreetRecord.GMI r) | r.
        r \<in> set (streets demo) \<and> ToLower ascii (NAZWA1 r) = ToLower ascii (TrimSpace ascii ''Chopina'')}"
proof -
  have l: "\<forall>x. (ToLower ascii x = []) = (x = [])"
    by (simp add: ascii_def)
  show ?thesis
    using C7_gmi_for_street [OF insertionSort_contract insertionSort_contract demo_load_streets l,
        of "''Chopina''"]
    by (simp add: demo_load_streets demo_gmi_Chopina)
qed

subsection \<open>C8: deduplication\<close>

text \<open>
  C8: no two records of a \<open>SearchStreets\<close> result have the same display name, and
  the record returned for a display name is the first one the scan meets: the first
  record in storage order that matches the query and has this display name.  No two
  records of a \<open>SearchCities\<close> result agree in \<open>(NAZWA, WOJ, POW, GMI)\<close>.
\<close>

theorem C8_deduplication:
  assumes "sort_Slice_contract sortS" and "sort_Slice_contract sortC"
  shows "(\<forall>ys. SearchStreets sortS U maxS s query limit = Inr ys \<longrightarrow>
            distinct (map FullName ys) \<and>
            (\<forall>y \<in> set ys.
               find (\<lambda>r. street_matches U (ToLower U (TrimSpace U query)) r \<and>
                          FullName r = FullName y) (streets s) = Some y)) \<and>
         (\<forall>zs. SearchCities sortC U maxC s query' woj pow gmi limit' = Inr zs \<longrightarrow>
            distinct (map (\<lambda>c. (NAZWA c, WOJ c, POW c, GMI c)) zs))"
proof (intro conjI allI impI)
  fix ys
  assume r: "SearchStreets sortS U maxS s query limit = Inr ys"
  define q where "q = ToLower U (TrimSpace U query)"
  define L where "L = first_per_key FullName {} (filter (street_matches U q) (streets s))"
  note swo = SearchStreets_less_swo [of U q]
  have ys: "ys = [] \<or> ys = sortS (SearchStreets_less U q) (take (nat limit) L)"
    using r by (auto simp: SearchStreets_Inr q_def L_def)
  have "distinct (map FullName (take (nat limit) L))"
    unfolding L_def by (rule distinct_map_take [OF first_per_key_distinct])
  then show "distinct (map FullName ys)"
    using ys contract_distinct_map [OF assms(1) swo, of FullName "take (nat limit) L"] by auto
  have "set ys \<subseteq> set L"
    using ys contract_set [OF assms(1) swo, of "take (nat limit) L"] set_take_subset by fastforce
  then have "find (\<lambda>r. FullName r = FullName y) (filter (street_matches U q) (streets s)) = Some y"
    if "y \<in> set ys" for y
    using that first_per_key_find [of y FullName "{}"] unfolding L_def by blast
  then show "\<forall>y \<in> set ys.
      find (\<lambda>r. street_matches U (ToLower U (TrimSpace U query)) r \<and> FullName r = FullName y)
        (streets s) = Some y"
    by (simp add: find_filter q_def)
next
  fix zs
  assume r: "SearchCities sortC U maxC s query' woj pow gmi limit' = Inr zs"
  define q where "q = ToLower U (TrimSpace U query')"
  define L where "L = first_per_key city_key {}
     (filter (\<lambda>c. city_passes woj pow gmi c \<and> city_matches U q c) (cities s))"
  note swo = SearchCities_less_swo [of U q]
  have zs: "zs = sortC (SearchCities_less U q) (take (nat limit') L)"
    using r by (simp add: SearchCities_Inr q_def L_def)
  have "distinct (map city_key (take (nat limit') L))"
    unfolding L_def by (rule distinct_map_take [OF first_per_key_distinct])
  then have "distinct (map city_key zs)"
    using zs contract_distinct_map [OF assms(2) swo, of city_key "take (nat limit') L"] by simp
  then show "distinct (map (\<lambda>c. (NAZWA c, WOJ c, POW c, GMI c)) zs)"
    by (rule distinct_map_coarser) (simp add: city_key_def)
qed

text \<open>C8 on the dataset: three records have the display name \<open>ul. Chopina\<close>;
  the search returns the first of them and \<open>al. Fryderyka Chopina\<close>.\<close>

theorem C8_witness:
  "SearchStreets insertionSort ascii street_maxcap demo ''chop'' 10 = Inr [demo_streets ! 0, demo_streets ! 2] \<and>
   FullName (demo_streets ! 0) = FullName (demo_streets ! 1) \<and>
   FullName (demo_streets ! 0) = FullName (demo_streets ! 3) \<and>
   distinct (map FullName [demo_streets ! 0, demo_streets ! 2]) \<and>
   find (\<lambda>r. street_matches ascii (ToLower ascii (TrimSpace ascii ''chop'')) r \<and>
              FullName r = FullName (demo_streets ! 0)) (streets demo) = Some (demo_streets ! 0) \<and>
   SearchCities insertionSort ascii city_maxcap demo ''krak'' 0 0 0 10 = Inr [demo_cities ! 0, demo_cities ! 1] \<and>
   distinct (map (\<lambda>c. (NAZWA c, WOJ c, POW c, GMI c)) [demo_cities ! 0, demo_cities ! 1])"
proof -
  have f: "FullName (demo_streets ! 0) = FullName (demo_streets ! 1)"
    "FullName (demo_streets ! 0) = FullName (demo_streets ! 3)"
    by (simp_all add: demo_streets_def mk_street_def)
  show ?thesis
    using C8_deduplication [OF insertionSort_contract insertionSort_contract,
        where U = ascii and s = demo and query = "''chop''" and limit = 10
          and query' = "''krak''" and woj = 0 and pow = 0 and gmi = 0 and limit' = 10
          and maxS = street_maxcap and maxC = city_maxcap]
      f
    by (simp add: demo_chop_10 demo_krak_10)
qed

subsection \<open>C9: where the scan stops\<close>

text \<open>
  C9 as stated fails: the loop tests \<open>len(results) >= limit\<close>, and a match that the
  deduplication drops is not appended to \<open>results\<close>.  With limit 2 the scan of the
  dataset passes the second \<open>ul. Chopina\<close> and goes on to
  \<open>al. Fryderyka Chopina\<close>; the scan of the claim would have stopped before it.
\<close>

theorem C9_counterexample:
  "SearchStreets insertionSort ascii street_maxcap demo ''chop'' 2 =
     Inr [demo_streets ! 0, demo_streets ! 2] \<and>
   SearchStreets_loop ascii ''chop'' 2 [] (\<lambda>k. False) (streets demo) =
     [demo_streets ! 0, demo_streets ! 2] \<and>
   scan_counting_dropped ascii ''chop'' 2 0 [] (\<lambda>k. False) (streets demo) = [demo_streets ! 0]"
  by code_simp

text \<open>
  C9, amended: the scan goes through the records in stored order and stops once
  \<open>limit\<close> records were kept; a match that the deduplication drops does not count.
  What the loop collects are the first \<open>limit\<close> of the matches that are the first of
  their key, and once it holds \<open>limit\<close> records no later record changes it.  The
  loop of \<open>SearchCities\<close> does the same.
\<close>

theorem C9_scan_stops_at_limit_kept:
  "SearchStreets_loop U q limit [] (\<lambda>k. False) xs =
     take (nat limit) (first_per_key FullName {} (filter (street_matches U q) xs)) \<and>
   (int (length (SearchStreets_loop U q limit [] (\<lambda>k. False) xs)) \<ge> limit \<longrightarrow>
      SearchStreets_loop U q limit [] (\<lambda>k. False) (xs @ later) =
      SearchStreets_loop U q limit [] (\<lambda>k. False) xs) \<and>
   SearchCities_loop U q woj pow gmi limit [] (\<lambda>k. False) cs =
     take (nat limit) (first_per_key city_key {}
       (filter (\<lambda>c. city_passes woj pow gmi c \<and> city_matches U q c) cs)) \<and>
   (int (length (SearchCities_loop U q woj pow gmi limit [] (\<lambda>k. False) cs)) \<ge> limit \<longrightarrow>
      SearchCities_loop U q woj pow gmi limit [] (\<lambda>k. False) (cs @ later') =
      SearchCities_loop U q woj pow gmi limit [] (\<lambda>k. False) cs)"
proof (intro conjI impI)
  show "SearchStreets_loop U q limit [] (\<lambda>k. False) xs =
     take (nat limit) (first_per_key FullName {} (filter (street_matches U q) xs))"
    by (simp add: SearchStreets_loop_eq)
  show "SearchCities_loop U q woj pow gmi limit [] (\<lambda>k. False) cs =
     take (nat limit) (first_per_key city_key {}
       (filter (\<lambda>c. city_passes woj pow gmi c \<and> city_matches U q c) cs))"
    by (simp add: SearchCities_loop_eq)
next
  assume "limit \<le> int (length (SearchStreets_loop U q limit [] (\<lambda>k. False) xs))"
  then have "nat limit \<le> length (take (nat limit)
      (first_per_key FullName {} (filter (street_matches U q) xs)))"
    by (simp add: SearchStreets_loop_eq)
  then show "SearchStreets_loop U q limit [] (\<lambda>k. False) (xs @ later) =
      SearchStreets_loop U q limit [] (\<lambda>k. False) xs"
    using take_first_per_key_append [of "nat limit" FullName "{}" "street_matches U q" xs later]
    by (simp add: SearchStreets_loop_eq)
next
  assume "limit \<le> int (length (SearchCities_loop U q woj pow gmi limit [] (\<lambda>k. False) cs))"
  then have "nat limit \<le> length (take (nat limit) (first_per_key city_key {}
       (filter (\<lambda>c. city_passes woj pow gmi c \<and> city_matches U q c) cs)))"
    by (simp add: SearchCities_loop_eq)
  then show "SearchCities_loop U q woj pow gmi limit [] (\<lambda>k. False) (cs @ later') =
      SearchCities_loop U q woj pow gmi limit [] (\<lambda>k. False) cs"
    using take_first_per_key_append [of "nat limit" city_key "{}"
        "\<lambda>c. city_passes woj pow gmi c \<and> city_matches U q c" cs later']
    by (simp add: SearchCities_loop_eq)
qed

text \<open>The amended C9 on the dataset: after three records the loop holds two, and
  the fourth record changes nothing.\<close>

theorem C9_witness:
  "SearchStreets_loop ascii ''chop'' 2 [] (\<lambda>k. False) (take 3 demo_streets) =
     [demo_streets ! 0, demo_streets ! 2] \<and>
   SearchStreets_loop ascii ''chop'' 2 [] (\<lambda>k. False) (take 3 demo_streets @ drop 3 demo_streets) =
     [demo_streets ! 0, demo_streets ! 2]"
proof -
  have v: "SearchStreets_loop ascii ''chop'' 2 [] (\<lambda>k. False) (take 3 demo_streets) =
     [demo_streets ! 0, demo_streets ! 2]"
    by code_simp
  show ?thesis
    using C9_scan_stops_at_limit_kept [of ascii "''chop''" 2 "take 3 demo_streets" "drop 3 demo_streets"]
    by (simp add: v)
qed

subsection \<open>C10: a query of white space\<close>



end
